theory Spec2Isabelle
  imports Main "HOL-Library.Char_ord" "HOL-Library.List_Lexorder"
begin

section \<open>Python strings\<close>

text \<open>
  A Python \<open>str\<close> is modelled as a \<open>string\<close>; the characters are the code points
  below 256. Strings are compared as Python compares them: by code point,
  lexicographically, a proper prefix first. A timestamp (\<open>datetime\<close>) is an \<open>int\<close>,
  the number of microseconds since the epoch; a \<open>timedelta\<close> is an \<open>int\<close> of
  microseconds.
\<close>

text \<open>\<open>str.isspace\<close> on the code points below 256.\<close>

definition isspace :: "char \<Rightarrow> bool" where
  "isspace c = (of_char c \<in> {9, 10, 11, 12, 13, 28, 29, 30, 31, 32, 133, 160 :: nat})"

text \<open>\<open>s.strip()\<close>: whitespace removed at both ends.\<close>

definition strip :: "string \<Rightarrow> string" where
  "strip s = rev (dropWhile isspace (rev (dropWhile isspace s)))"

text \<open>\<open>s.strip(c)\<close> for a one-character argument.\<close>

definition strip_char :: "char \<Rightarrow> string \<Rightarrow> string" where
  "strip_char c s = rev (dropWhile (\<lambda>x. x = c) (rev (dropWhile (\<lambda>x. x = c) s)))"

text \<open>\<open>s.split(c)\<close> for a one-character separator: never empty, \<open>"".split(c) = [""]\<close>.\<close>

fun split :: "char \<Rightarrow> string \<Rightarrow> string list" where
  "split c [] = [[]]"
| "split c (x # xs) =
     (if x = c then [] # split c xs
      else (case split c xs of [] \<Rightarrow> [[x]] | w # ws \<Rightarrow> (x # w) # ws))"

text \<open>\<open>c.join(ws)\<close> for a one-character separator.\<close>

fun join :: "char \<Rightarrow> string list \<Rightarrow> string" where
  "join c [] = []"
| "join c [w] = w"
| "join c (w # v # ws) = w @ c # join c (v # ws)"

text \<open>Truth value of an \<open>Optional[str]\<close>: \<open>None\<close> and \<open>""\<close> are false.\<close>

definition truthy :: "string option \<Rightarrow> bool" where
  "truthy s = (case s of None \<Rightarrow> False | Some v \<Rightarrow> v \<noteq> [])"


definition seconds :: "int \<Rightarrow> int" where
  "seconds n = n * 1000000"

section \<open>Data model (models.py)\<close>

datatype AttributionStatus = PENDING | VERIFIED | REVOKED

datatype EventType = JOIN | LEAVE | PROMOTE | REVOKE

text \<open>
  The rows of the four tables. The column \<open>created_at\<close> of the timestamp mixin is
  filled by the database and read by none of the functions below; it is left out.
  The primary keys \<open>id\<close> are \<open>user_id\<close>, \<open>aff_id\<close> and \<open>attr_id\<close>; the column
  \<open>note\<close> of an attribution is the field \<open>note_field\<close>.
\<close>

record User =
  user_id :: int
  user_username :: "string option"
  user_first_name :: "string option"
  user_last_name :: "string option"

record Affiliate =
  aff_id :: int
  owner_user_id :: int
  invite_link :: string
  link_code :: string
  is_active :: bool

record Attribution =
  attr_id :: int
  joined_user_id :: int
  affiliate_id :: int
  joined_at :: int
  verified_at :: "int option"
  status :: AttributionStatus
  note_field :: "string option"
  last_seen_ip :: "string option"
  source_subnet :: "string option"

text \<open>The payload \<open>raw\<close> of an event: the two dictionaries the handlers build.\<close>

datatype Raw =
  JoinRaw string string int "string list" "string option" "string option"
| LeaveRaw string int

record Event =
  event_type :: EventType
  event_user_id :: int
  event_affiliate_id :: "int option"
  raw :: Raw

text \<open>
  The database as the session sees it: the tables in row order and the sequence
  that numbers new attributions. The unique constraints of the schema (one
  attribution per joined user, one affiliate per link code, primary keys) are
  enforced by the database, not by the functions below.
\<close>

record Store =
  users :: "User list"
  affiliates :: "Affiliate list"
  attributions :: "Attribution list"
  events :: "Event list"
  attribution_seq :: int

section \<open>Users, affiliates, events (services)\<close>

definition get_user :: "Store \<Rightarrow> int \<Rightarrow> User option" where
  "get_user st uid = find (\<lambda>u. user_id u = uid) (users st)"

definition upsert_user ::
  "Store \<Rightarrow> int \<Rightarrow> string option \<Rightarrow> string option \<Rightarrow> string option \<Rightarrow> Store \<times> User" where
  "upsert_user st uid uname fname lname =
     (case get_user st uid of
        Some existing \<Rightarrow>
          (let u = existing\<lparr>user_username := uname, user_first_name := fname,
                             user_last_name := lname\<rparr>
           in (st\<lparr>users := map (\<lambda>x. if user_id x = uid then u else x) (users st)\<rparr>, u))
      | None \<Rightarrow>
          (let u = \<lparr>user_id = uid, user_username = uname, user_first_name = fname,
                     user_last_name = lname\<rparr>
           in (st\<lparr>users := users st @ [u]\<rparr>, u)))"

definition get_affiliate_by_code :: "Store \<Rightarrow> string \<Rightarrow> Affiliate option" where
  "get_affiliate_by_code st code = find (\<lambda>a. link_code a = code) (affiliates st)"

definition log_event :: "Store \<Rightarrow> EventType \<Rightarrow> int \<Rightarrow> int option \<Rightarrow> Raw \<Rightarrow> Store" where
  "log_event st ty uid aid r =
     st\<lparr>events := events st @
          [\<lparr>event_type = ty, event_user_id = uid, event_affiliate_id = aid, raw = r\<rparr>]\<rparr>"

section \<open>Attributions (services/attributions.py)\<close>

text \<open>
  \<open>session.add(attribution); session.flush()\<close> for a loaded row: the row with the
  same primary key is written back.
\<close>

definition flush_attribution :: "Store \<Rightarrow> Attribution \<Rightarrow> Store" where
  "flush_attribution st a =
     st\<lparr>attributions := map (\<lambda>x. if attr_id x = attr_id a then a else x) (attributions st)\<rparr>"

text \<open>
  \<open>create_attribution\<close>: the new row takes the next number of the sequence, the
  column defaults \<open>status = pending\<close> and \<open>verified_at = NULL\<close>, and
  \<open>joined_at or now\<close>.
\<close>

definition create_attribution ::
  "Store \<Rightarrow> int \<Rightarrow> Affiliate \<Rightarrow> User \<Rightarrow> int option \<Rightarrow> string option \<Rightarrow> string option
     \<Rightarrow> string option \<Rightarrow> Store \<times> Attribution" where
  "create_attribution st now affiliate joined_user joined source_ip subnet nt =
     (let new_record = \<lparr>attr_id = attribution_seq st,
                     joined_user_id = user_id joined_user,
                     affiliate_id = aff_id affiliate,
                     joined_at = (case joined of Some t \<Rightarrow> t | None \<Rightarrow> now),
                     verified_at = None,
                     status = PENDING,
                     note_field = nt,
                     last_seen_ip = source_ip,
                     source_subnet = subnet\<rparr>
      in (st\<lparr>attributions := attributions st @ [new_record],
              attribution_seq := attribution_seq st + 1\<rparr>, new_record))"

definition get_attribution_by_user :: "Store \<Rightarrow> int \<Rightarrow> Attribution option" where
  "get_attribution_by_user st uid = find (\<lambda>a. joined_user_id a = uid) (attributions st)"

text \<open>\<open>session.get(Attribution, attr_id)\<close>.\<close>

definition get_attribution :: "Store \<Rightarrow> int \<Rightarrow> Attribution option" where
  "get_attribution st i = find (\<lambda>a. attr_id a = i) (attributions st)"

text \<open>
  \<open>update_attribution_status\<close>; \<open>now\<close> is the clock read by \<open>verified_at or now\<close>
  (a \<open>datetime\<close> is never false, so only \<open>None\<close> takes the clock).
\<close>

definition update_attribution_status ::
  "Store \<Rightarrow> int \<Rightarrow> Attribution \<Rightarrow> AttributionStatus \<Rightarrow> int option \<Rightarrow> Store \<times> Attribution" where
  "update_attribution_status st now attribution new_status verified =
     (let a = attribution\<lparr>status := new_status,
                verified_at := (if new_status = VERIFIED
                                then Some (case verified of Some t \<Rightarrow> t | None \<Rightarrow> now)
                                else verified)\<rparr>
      in (flush_attribution st a, a))"

text \<open>
  The set comprehension of \<open>merge_note\<close>:
  \<open>{r.strip() for r in (existing or "").split(",") if r.strip()}\<close>.
  \<open>existing or ""\<close> turns both \<open>None\<close> and the empty string into \<open>""\<close>.
\<close>

definition note_reasons :: "string option \<Rightarrow> string set" where
  "note_reasons existing =
     set (filter (\<lambda>r. r \<noteq> [])
            (map strip (split (CHR '','') (case existing of None \<Rightarrow> [] | Some e \<Rightarrow> e))))"

definition merge_note :: "string option \<Rightarrow> string \<Rightarrow> string" where
  "merge_note existing reason =
     join (CHR '','') (sorted_list_of_set (insert reason (note_reasons existing)))"

text \<open>
  A well-formed reason tag: not empty, without a comma and without whitespace at
  its ends. The tags the source merges (\<open>ip_burst\<close>, \<open>fresh_account\<close>,
  \<open>manual_revoke\<close>) are of this form, and so is every tag parsed from a note.
\<close>

definition tag_ok :: "string \<Rightarrow> bool" where
  "tag_ok w = (w \<noteq> [] \<and> CHR '','' \<notin> set w \<and> strip w = w)"

text \<open>
  \<open>flag_subnet_burst\<close>: the rows selected by the \<open>where\<close> clause (a row whose
  subnet is \<open>NULL\<close> is never selected), the body of the loop, and the function,
  which returns the updated rows.
\<close>

definition burst_selected :: "string \<Rightarrow> int \<Rightarrow> Attribution \<Rightarrow> bool" where
  "burst_selected subnet since a = (source_subnet a = Some subnet \<and> since \<le> joined_at a)"

definition burst_reopen :: "Attribution \<Rightarrow> Attribution" where
  "burst_reopen a =
     a\<lparr>status := PENDING, verified_at := None,
       note_field := Some (merge_note (note_field a) ''ip_burst'')\<rparr>"

definition flag_subnet_burst :: "Store \<Rightarrow> string \<Rightarrow> int \<Rightarrow> Store \<times> Attribution list" where
  "flag_subnet_burst st subnet since =
     (st\<lparr>attributions :=
           map (\<lambda>a. if burst_selected subnet since a then burst_reopen a else a)
             (attributions st)\<rparr>,
      map burst_reopen (filter (burst_selected subnet since) (attributions st)))"

section \<open>Verification scheduler (services/integrity.py)\<close>

definition VERIFICATION_DELAY_SECONDS :: int where
  "VERIFICATION_DELAY_SECONDS = 600"

text \<open>
  A task of the event loop that runs \<open>_verify_after_delay\<close>: the user it was created
  for, its delay in seconds, the time at which it was created, and whether
  \<open>cancel()\<close> has been called on it. A task that has finished is no longer in the
  loop.
\<close>

record Task =
  task_user :: int
  task_delay :: int
  task_armed_at :: int
  task_cancelled :: bool

text \<open>
  The state of the process: the database, the burst windows \<open>_subnet_events\<close> (a
  \<open>defaultdict\<close>: a subnet never seen has the empty queue), the registry
  \<open>_verification_tasks\<close> from user ids to task handles, the unfinished tasks of the
  event loop, the next handle, and whether an event loop is running.
\<close>

record State =
  store :: Store
  subnet_events :: "string \<Rightarrow> int list"
  verification_tasks :: "int \<rightharpoonup> nat"
  loop_tasks :: "nat \<rightharpoonup> Task"
  task_seq :: nat
  loop_running :: bool

text \<open>\<open>task.cancel()\<close>: a request; on a finished task it does nothing.\<close>

definition task_cancel :: "(nat \<rightharpoonup> Task) \<Rightarrow> nat \<Rightarrow> (nat \<rightharpoonup> Task)" where
  "task_cancel ts h =
     (case ts h of None \<Rightarrow> ts | Some t \<Rightarrow> ts(h \<mapsto> t\<lparr>task_cancelled := True\<rparr>))"

definition cancel_verification :: "State \<Rightarrow> int \<Rightarrow> State" where
  "cancel_verification s joined_user =
     (case verification_tasks s joined_user of
        None \<Rightarrow> s
      | Some task \<Rightarrow>
          s\<lparr>verification_tasks := (verification_tasks s)(joined_user := None),
            loop_tasks := task_cancel (loop_tasks s) task\<rparr>)"

text \<open>
  \<open>schedule_verification\<close>; \<open>now\<close> is the time of the call. Without a running
  loop \<open>get_running_loop\<close> raises and the function returns after the
  cancellation.
\<close>

definition schedule_verification :: "State \<Rightarrow> int \<Rightarrow> int \<Rightarrow> State" where
  "schedule_verification s now joined_user =
     (let s1 = cancel_verification s joined_user in
      if \<not> loop_running s1 then s1
      else
        (let task = task_seq s1 in
         s1\<lparr>loop_tasks := (loop_tasks s1)(task \<mapsto>
                \<lparr>task_user = joined_user, task_delay = VERIFICATION_DELAY_SECONDS,
                  task_armed_at = now, task_cancelled = False\<rparr>),
             task_seq := Suc task,
             verification_tasks := (verification_tasks s1)(joined_user \<mapsto> task)\<rparr>))"

text \<open>
  How the \<open>await asyncio.sleep(delay)\<close> of a task ends: the delay has elapsed at the
  given time, or the task was cancelled in its sleep.
\<close>

datatype Wake = Elapsed int | CancelledError

text \<open>
  \<open>_verify_after_delay\<close> from the end of its sleep. \<open>db_ok\<close> is false when the
  session raises: the transaction is rolled back, the exception is logged and
  swallowed. The \<open>finally\<close> clause runs on every path.
\<close>

definition verify_after_delay :: "State \<Rightarrow> int \<Rightarrow> Wake \<Rightarrow> bool \<Rightarrow> State" where
  "verify_after_delay s joined_user wake db_ok =
     (let s1 =
        (case wake of
           CancelledError \<Rightarrow> s
         | Elapsed now \<Rightarrow>
             if \<not> db_ok then s
             else
               (case get_attribution_by_user (store s) joined_user of
                  None \<Rightarrow> s
                | Some attribution \<Rightarrow>
                    if status attribution = PENDING \<and> \<not> truthy (note_field attribution)
                    then s\<lparr>store := fst (update_attribution_status (store s) now
                                            attribution VERIFIED (Some now))\<rparr>
                    else s))
      in s1\<lparr>verification_tasks := (verification_tasks s1)(joined_user := None)\<rparr>)"

text \<open>
  One turn of the event loop for the task \<open>h\<close> at time \<open>now\<close>: a cancelled task
  gets its \<open>CancelledError\<close>, a task whose delay has elapsed wakes up, any other
  task keeps sleeping. The task that ran has finished. The tasks of the model
  have had their first turn and sleep: a task cancelled before its first turn
  would end without entering the \<open>try\<close> statement.
\<close>

definition run_task :: "State \<Rightarrow> nat \<Rightarrow> int \<Rightarrow> bool \<Rightarrow> State" where
  "run_task s h now db_ok =
     (case loop_tasks s h of
        None \<Rightarrow> s
      | Some t \<Rightarrow>
          if task_cancelled t
          then (verify_after_delay s (task_user t) CancelledError db_ok)
                 \<lparr>loop_tasks := (loop_tasks s)(h := None)\<rparr>
          else if now < task_armed_at t + seconds (task_delay t) then s
          else (verify_after_delay s (task_user t) (Elapsed now) db_ok)
                 \<lparr>loop_tasks := (loop_tasks s)(h := None)\<rparr>)"

section \<open>Membership events (handlers/members.py, utils/invite_links.py)\<close>

definition BURST_WINDOW :: int where
  "BURST_WINDOW = seconds (5 * 60)"

definition BURST_THRESHOLD :: nat where
  "BURST_THRESHOLD = 3"

text \<open>
  \<open>_ip_subnet\<close>. The library call is a parameter: \<open>net24 ip\<close> is the text
  \<open>a.b.c.0/24\<close> of the /24 network of an IPv4 address, and \<open>None\<close> where
  \<open>ipaddress.ip_address\<close> raises or returns an IPv6 address.
\<close>

definition ip_subnet :: "(string \<Rightarrow> string option) \<Rightarrow> string option \<Rightarrow> string option" where
  "ip_subnet net24 ip_str = (if \<not> truthy ip_str then None else net24 (the ip_str))"

text \<open>The loop of \<open>_record_subnet_event\<close>: entries leave at the left while the oldest one is older than the window.\<close>

fun popleft_old :: "int \<Rightarrow> int list \<Rightarrow> int list" where
  "popleft_old now [] = []"
| "popleft_old now (t # bucket) =
     (if now - t > BURST_WINDOW then popleft_old now bucket else t # bucket)"

definition record_subnet_event ::
  "(string \<Rightarrow> int list) \<Rightarrow> string \<Rightarrow> int \<Rightarrow> (string \<Rightarrow> int list) \<times> bool" where
  "record_subnet_event evs subnet now =
     (let bucket = popleft_old now (evs subnet) @ [now]
      in (evs(subnet := bucket), length bucket > BURST_THRESHOLD))"

text \<open>The user of a membership update, as the messaging library hands it over.\<close>

record TgUser =
  uid :: int
  is_bot :: bool
  username :: "string option"
  first_name :: "string option"
  last_name :: "string option"
  is_premium :: "bool option"

definition is_fresh_account :: "TgUser \<Rightarrow> bool" where
  "is_fresh_account user =
     (if is_bot user then True
      else
        (let uname = (case username user of None \<Rightarrow> [] | Some u \<Rightarrow> u);
             fname = (case first_name user of None \<Rightarrow> [] | Some f \<Rightarrow> f);
             premium = (case is_premium user of None \<Rightarrow> False | Some p \<Rightarrow> p)
         in if premium then False
            else if uname \<noteq> [] then False
            else if length (strip fname) \<le> 2 then True
            else False))"

text \<open>
  \<open>extract_link_code\<close>. The library call is a parameter: \<open>urlpath s\<close> is
  \<open>urlparse(s).path or ""\<close>.
\<close>

definition extract_link_code :: "(string \<Rightarrow> string) \<Rightarrow> string \<Rightarrow> string" where
  "extract_link_code urlpath link =
     (let path = strip_char (CHR ''/'') (urlpath link)
      in if path = [] then link else last (split (CHR ''/'') path))"

text \<open>
  A join as \<open>_handle_join\<close> reads it: the invite link of the update (\<open>None\<close> when
  the update carries no link object), the joining user, the address in
  \<open>request_ip_var\<close> and the clock.
\<close>

record JoinUpdate =
  upd_invite_link :: "string option"
  upd_user :: TgUser
  upd_request_ip :: "string option"
  upd_now :: int

text \<open>
  \<open>_handle_join\<close> is modelled in two parts. \<open>join_create\<close> is the function from
  the line \<open>note = ...\<close> to its end: the join has passed the guards, the
  attribution is created, a burst reopens the subnet, the event is logged, and
  after the session the timers are armed or cancelled. The timer is armed at the
  time \<open>now\<close> of the join.
\<close>

definition join_create ::
  "State \<Rightarrow> Store \<Rightarrow> string \<Rightarrow> string \<Rightarrow> TgUser \<Rightarrow> string option \<Rightarrow> string option \<Rightarrow> int
     \<Rightarrow> string list \<Rightarrow> Affiliate \<Rightarrow> User \<Rightarrow> State" where
  "join_create s1 st1 link_url code target_user source_ip subnet now suspicion_reasons
     affiliate joined_user =
     (let nt = (if suspicion_reasons \<noteq> []
                then Some (join (CHR '','') suspicion_reasons) else None);
          (st2, attribution) = create_attribution st1 now affiliate joined_user
                                 (Some now) source_ip subnet nt;
          (st3, flagged_users) =
             (if ''ip_burst'' \<in> set suspicion_reasons \<and> truthy subnet
              then (let (st, flagged) = flag_subnet_burst st2 (the subnet) (now - BURST_WINDOW)
                    in (st, map joined_user_id flagged))
              else (st2, []));
          st4 = log_event st3 JOIN (user_id joined_user) (Some (aff_id affiliate))
                  (JoinRaw link_url code (attr_id attribution)
                     suspicion_reasons source_ip subnet);
          s2 = s1\<lparr>store := st4\<rparr>;
          s3 = (if suspicion_reasons \<noteq> []
                then cancel_verification s2 (uid target_user)
                else schedule_verification s2 now (uid target_user))
      in fold (\<lambda>u acc. if u \<noteq> uid target_user then cancel_verification acc u else acc)
           flagged_users s3)"

text \<open>
  \<open>_handle_join\<close> up to the guards. A \<open>return\<close> inside the session scope commits
  what the session has written so far.
\<close>

definition handle_join ::
  "(string \<Rightarrow> string) \<Rightarrow> (string \<Rightarrow> string option) \<Rightarrow> State \<Rightarrow> JoinUpdate \<Rightarrow> State" where
  "handle_join urlpath net24 s upd =
     (if \<not> truthy (upd_invite_link upd) then s
      else
        (let link_url = the (upd_invite_link upd);
             link_code = extract_link_code urlpath link_url;
             target_user = upd_user upd;
             source_ip = upd_request_ip upd;
             subnet = ip_subnet net24 source_ip;
             now = upd_now upd;
             (evs, burst) = (if truthy subnet
                             then record_subnet_event (subnet_events s) (the subnet) now
                             else (subnet_events s, False));
             suspicion_reasons = (if burst then [''ip_burst''] else []) @
                                 (if is_fresh_account target_user then [''fresh_account''] else []);
             s1 = s\<lparr>subnet_events := evs\<rparr>;
             (st1, joined_user) = upsert_user (store s1) (uid target_user)
                                    (username target_user) (first_name target_user)
                                    (last_name target_user)
         in case get_affiliate_by_code st1 link_code of
              None \<Rightarrow> s1\<lparr>store := st1\<rparr>
            | Some affiliate \<Rightarrow>
                if owner_user_id affiliate = user_id joined_user \<or> \<not> is_active affiliate
                then s1\<lparr>store := st1\<rparr>
                else if get_attribution_by_user st1 (user_id joined_user) \<noteq> None
                then s1\<lparr>store := st1\<rparr>
                else join_create s1 st1 link_url link_code target_user source_ip subnet now
                       suspicion_reasons affiliate joined_user))"

text \<open>
  \<open>_handle_leave\<close>: the user who left and the new membership status
  (\<open>left\<close> or \<open>kicked\<close>).
\<close>

definition handle_leave :: "State \<Rightarrow> TgUser \<Rightarrow> string \<Rightarrow> int \<Rightarrow> State" where
  "handle_leave s target_user reason now =
     (let (st1, user) = upsert_user (store s) (uid target_user) (username target_user)
                          (first_name target_user) (last_name target_user)
      in case get_attribution_by_user st1 (uid target_user) of
           None \<Rightarrow> s\<lparr>store := st1\<rparr>
         | Some attribution \<Rightarrow>
             if status attribution = PENDING \<or> status attribution = VERIFIED
             then
               (let (st2, a) = update_attribution_status st1 now attribution REVOKED
                                 (verified_at attribution);
                    st3 = log_event st2 LEAVE (user_id user) (Some (affiliate_id a))
                            (LeaveRaw reason (attr_id a))
                in cancel_verification (s\<lparr>store := st3\<rparr>) (uid target_user))
             else s\<lparr>store := st1\<rparr>)"

section \<open>Review workflow (handlers/commands.py)\<close>

text \<open>
  A press on a review button as \<open>handle_review_callback\<close> reads it: the caller
  (\<open>None\<close> when the update names no user), the answer of the gateway to the
  administrator check, the callback data, the clock, and whether the call
  \<open>callback.answer(message_text)\<close> that follows the session returns
  (\<open>cb_answer_ok\<close>) or raises. The replies on the earlier paths change nothing
  in the state, whether they return or raise.
\<close>

record Callback =
  cb_from_user :: "int option"
  cb_is_admin :: bool
  cb_data :: "string option"
  cb_now :: int
  cb_answer_ok :: bool

text \<open>
  \<open>handle_review_callback\<close>. The library call is a parameter: \<open>py_int s\<close> is
  \<open>int(s)\<close>, and \<open>None\<close> where it raises \<open>ValueError\<close>. Unpacking the split data
  into three names raises \<open>ValueError\<close> unless there are exactly three parts. The
  session has committed when \<open>callback.answer\<close> is awaited; when that call
  raises, the handler ends there and \<open>cancel_verification\<close> is not reached.
\<close>

definition handle_review_callback :: "(string \<Rightarrow> int option) \<Rightarrow> State \<Rightarrow> Callback \<Rightarrow> State" where
  "handle_review_callback py_int s cb =
     (if cb_from_user cb = None \<or> \<not> cb_is_admin cb then s
      else if \<not> truthy (cb_data cb) then s
      else
        (case split (CHR '':'') (the (cb_data cb)) of
           [prefix, action, attr_id_str] \<Rightarrow>
             (case py_int attr_id_str of
                None \<Rightarrow> s
              | Some i \<Rightarrow>
                  (case get_attribution (store s) i of
                     None \<Rightarrow> s
                   | Some attribution \<Rightarrow>
                       if action = ''verify''
                       then
                         (let (st1, a) = update_attribution_status (store s) (cb_now cb)
                                           attribution VERIFIED (Some (cb_now cb));
                              st2 = flush_attribution st1 (a\<lparr>note_field := None\<rparr>)
                          in if cb_answer_ok cb
                             then cancel_verification (s\<lparr>store := st2\<rparr>) (joined_user_id attribution)
                             else s\<lparr>store := st2\<rparr>)
                       else if action = ''revoke''
                       then
                         (let (st1, a) = update_attribution_status (store s) (cb_now cb)
                                           attribution REVOKED (verified_at attribution);
                              st2 = flush_attribution st1
                                      (a\<lparr>note_field := Some (merge_note (note_field a) ''manual_revoke'')\<rparr>)
                          in if cb_answer_ok cb
                             then cancel_verification (s\<lparr>store := st2\<rparr>) (joined_user_id attribution)
                             else s\<lparr>store := st2\<rparr>)
                       else s))
         | _ \<Rightarrow> s))"

section \<open>Leaderboard (services/leaderboard.py)\<close>











section \<open>The process as a whole\<close>

text \<open>
  What the event loop hands to the functions above: a join, a leave, a press on a
  review button, or a turn of a verification task. \<open>run_steps\<close> runs a sequence of
  them from a state; the three library calls are parameters.
\<close>

datatype Step =
  Join JoinUpdate
| Leave TgUser string int
| Review Callback
| Run nat int bool

definition step ::
  "(string \<Rightarrow> string) \<Rightarrow> (string \<Rightarrow> string option) \<Rightarrow> (string \<Rightarrow> int option)
     \<Rightarrow> State \<Rightarrow> Step \<Rightarrow> State" where
  "step urlpath net24 py_int s ev =
     (case ev of
        Join upd \<Rightarrow> handle_join urlpath net24 s upd
      | Leave target_user reason now \<Rightarrow> handle_leave s target_user reason now
      | Review cb \<Rightarrow> handle_review_callback py_int s cb
      | Run h now db_ok \<Rightarrow> run_task s h now db_ok)"

definition run_steps ::
  "(string \<Rightarrow> string) \<Rightarrow> (string \<Rightarrow> string option) \<Rightarrow> (string \<Rightarrow> int option)
     \<Rightarrow> State \<Rightarrow> Step list \<Rightarrow> State" where
  "run_steps urlpath net24 py_int s evs = fold (\<lambda>ev acc. step urlpath net24 py_int acc ev) evs s"

section \<open>Predicates of the specification\<close>

text \<open>
  The unique constraints of the attributions table and the sequence that numbers
  its rows: primary keys and joined users are distinct, and every primary key in
  use is below the next number of the sequence.
\<close>

definition store_ok :: "Store \<Rightarrow> bool" where
  "store_ok st =
     (distinct (map attr_id (attributions st)) \<and>
      distinct (map joined_user_id (attributions st)) \<and>
      (\<forall>a \<in> set (attributions st). attr_id a < attribution_seq st))"

text \<open>
  The scheduler's bookkeeping: handles not yet given out name no task, the
  registry holds handles that were given out, and every task that is neither
  finished nor cancelled is the one registered for its user.
\<close>

definition tasks_ok :: "State \<Rightarrow> bool" where
  "tasks_ok s =
     ((\<forall>h. task_seq s \<le> h \<longrightarrow> loop_tasks s h = None) \<and>
      (\<forall>u h. verification_tasks s u = Some h \<longrightarrow> h < task_seq s) \<and>
      (\<forall>h t. loop_tasks s h = Some t \<and> \<not> task_cancelled t
               \<longrightarrow> verification_tasks s (task_user t) = Some h))"

text \<open>
  A row the fired task would verify: pending, with no note. \<open>held st i\<close>: the
  database is well-formed and the attribution \<open>i\<close> exists and is not such a row.
\<close>

definition eligible :: "Attribution \<Rightarrow> bool" where
  "eligible a = (status a = PENDING \<and> \<not> truthy (note_field a))"

definition held :: "Store \<Rightarrow> int \<Rightarrow> bool" where
  "held st i = (store_ok st \<and> (\<exists>a. get_attribution st i = Some a \<and> \<not> eligible a))"

text \<open>The live timers of a user: the unfinished tasks created for the user and not cancelled.\<close>

definition live_timers :: "State \<Rightarrow> int \<Rightarrow> nat set" where
  "live_timers s u = {h. \<exists>t. loop_tasks s h = Some t \<and> task_user t = u \<and> \<not> task_cancelled t}"

text \<open>
  What \<open>_handle_join\<close> does to the burst windows before it opens the session,
  and whether the guards inside the session turn the join away: the code of the
  link names no affiliate, or an inactive one, or one owned by the joining user,
  or the user already has an attribution.
\<close>

definition join_events ::
  "(string \<Rightarrow> string option) \<Rightarrow> State \<Rightarrow> JoinUpdate \<Rightarrow> (string \<Rightarrow> int list) \<times> bool" where
  "join_events net24 s upd =
     (if truthy (ip_subnet net24 (upd_request_ip upd))
      then record_subnet_event (subnet_events s) (the (ip_subnet net24 (upd_request_ip upd)))
             (upd_now upd)
      else (subnet_events s, False))"

definition join_rejected :: "(string \<Rightarrow> string) \<Rightarrow> State \<Rightarrow> JoinUpdate \<Rightarrow> bool" where
  "join_rejected urlpath s upd =
     (case get_affiliate_by_code (store s)
             (extract_link_code urlpath (the (upd_invite_link upd))) of
        None \<Rightarrow> True
      | Some affiliate \<Rightarrow>
          \<not> is_active affiliate \<or> owner_user_id affiliate = uid (upd_user upd)
          \<or> get_attribution_by_user (store s) (uid (upd_user upd)) \<noteq> None)"

section \<open>Example data\<close>

definition demo_affiliate :: Affiliate where
  "demo_affiliate =
     \<lparr>aff_id = 1, owner_user_id = 100, invite_link = ''https://t.me/+abc'',
      link_code = ''+abc'', is_active = True\<rparr>"

definition demo_row ::
  "int \<Rightarrow> int \<Rightarrow> int \<Rightarrow> AttributionStatus \<Rightarrow> int option \<Rightarrow> string option \<Rightarrow> string option
     \<Rightarrow> Attribution" where
  "demo_row i u t st v n sn =
     \<lparr>attr_id = i, joined_user_id = u, affiliate_id = 1, joined_at = t, verified_at = v,
      status = st, note_field = n, last_seen_ip = None, source_subnet = sn\<rparr>"

definition demo_store :: "Attribution list \<Rightarrow> Store" where
  "demo_store rows =
     \<lparr>users = [], affiliates = [demo_affiliate], attributions = rows, events = [],
      attribution_seq = 10\<rparr>"

definition demo_state :: "Attribution list \<Rightarrow> State" where
  "demo_state rows =
     \<lparr>store = demo_store rows, subnet_events = (\<lambda>subnet. []),
      verification_tasks = Map.empty, loop_tasks = Map.empty, task_seq = 0,
      loop_running = True\<rparr>"

definition demo_user :: "int \<Rightarrow> TgUser" where
  "demo_user u =
     \<lparr>uid = u, is_bot = False, username = Some ''alice'', first_name = Some ''Alice'',
      last_name = None, is_premium = None\<rparr>"

definition demo_callback :: "string \<Rightarrow> int \<Rightarrow> Callback" where
  "demo_callback d t =
     \<lparr>cb_from_user = Some 100, cb_is_admin = True, cb_data = Some d, cb_now = t,
      cb_answer_ok = True\<rparr>"

text \<open>Stand-ins for the library calls: \<open>int\<close> on the texts 0 to 9, the path of a link, the /24 network of two addresses.\<close>

definition demo_int :: "string \<Rightarrow> int option" where
  "demo_int s = (if length s = 1 \<and> s \<noteq> [] \<and> of_char (hd s) \<in> {48 ..< 58 :: nat}
                 then Some (int (of_char (hd s)) - 48) else None)"

definition demo_urlpath :: "string \<Rightarrow> string" where
  "demo_urlpath s = drop 12 s"

definition demo_net24 :: "string \<Rightarrow> string option" where
  "demo_net24 ip =
     (if ip = ''10.0.0.7'' \<or> ip = ''10.0.0.8'' then Some ''10.0.0.0/24''
      else if ip = ''10.0.1.9'' then Some ''10.0.1.0/24''
      else None)"

definition demo_join :: "string \<Rightarrow> int \<Rightarrow> string option \<Rightarrow> int \<Rightarrow> JoinUpdate" where
  "demo_join link u ip t =
     \<lparr>upd_invite_link = Some link, upd_user = demo_user u, upd_request_ip = ip, upd_now = t\<rparr>"

text \<open>A state in which the subnet 10.0.0.0/24 has seen three joins.\<close>

definition demo_bursting :: "Attribution list \<Rightarrow> State" where
  "demo_bursting rows =
     (demo_state rows)\<lparr>subnet_events :=
        (\<lambda>subnet. if subnet = ''10.0.0.0/24'' then [100, 200, 300] else [])\<rparr>"




text \<open>
  A press on a review button whose acknowledgement fails at the gateway, and a
  user scheduled three times: at time 0, at time 5 once the first task sleeps,
  and at time 7 after the turn of the loop in which the first task, cancelled,
  has ended.
\<close>

definition demo_failed_callback :: "string \<Rightarrow> int \<Rightarrow> Callback" where
  "demo_failed_callback d t = (demo_callback d t)\<lparr>cb_answer_ok := False\<rparr>"

definition demo_rescheduled :: State where
  "demo_rescheduled =
     schedule_verification
       (schedule_verification (demo_state [demo_row 5 42 0 PENDING None None None]) 0 42) 5 42"

definition demo_cleaned :: State where
  "demo_cleaned = run_task demo_rescheduled 0 6 True"

definition demo_third :: State where
  "demo_third = schedule_verification demo_cleaned 7 42"
section \<open>Splitting and joining\<close>

lemma split_not_Nil: "split c s \<noteq> []"
  by (induction s) (auto split: list.splits)

lemma split_no_sep: "c \<notin> set w \<Longrightarrow> split c w = [w]"
  by (induction w) auto

lemma split_append_sep: "c \<notin> set w \<Longrightarrow> split c (w @ c # r) = w # split c r"
  by (induction w) (auto split: list.splits)

lemma split_join: "ws \<noteq> [] \<Longrightarrow> \<forall>w\<in>set ws. c \<notin> set w \<Longrightarrow> split c (join c ws) = ws"
  by (induction c ws rule: join.induct) (auto simp: split_no_sep split_append_sep)

lemma split_parts_no_sep: "w \<in> set (split c s) \<Longrightarrow> c \<notin> set w"
  by (induction s arbitrary: w) (auto split: if_splits list.splits)

lemma set_strip: "set (strip s) \<subseteq> set s"
  unfolding strip_def
  by (metis set_dropWhileD set_rev subsetI)

lemma dropWhile_rev_dropWhile:
  "dropWhile P (rev (dropWhile P (rev (dropWhile P s)))) = rev (dropWhile P (rev (dropWhile P s)))"
proof -
  define x where "x = dropWhile P s"
  define y where "y = rev (dropWhile P (rev x))"
  have "x = rev (takeWhile P (rev x) @ dropWhile P (rev x))"
    by (simp only: takeWhile_dropWhile_id rev_rev_ident)
  then have x: "x = y @ rev (takeWhile P (rev x))"
    by (simp only: rev_append y_def)
  have "y = [] \<or> \<not> P (hd y)"
  proof (cases "y = []")
    case True
    then show ?thesis by simp
  next
    case False
    then have "hd y = hd x" using x by (metis hd_append2)
    moreover have "x \<noteq> []" using x False by auto
    then have "\<not> P (hd x)" unfolding x_def by (rule hd_dropWhile)
    ultimately show ?thesis by simp
  qed
  then have "dropWhile P y = y"
    by (simp add: dropWhile_eq_self_iff)
  then show ?thesis by (simp add: x_def y_def)
qed

lemma strip_strip: "strip (strip s) = strip s"
  unfolding strip_def by (simp add: dropWhile_rev_dropWhile)

section \<open>Notes as sets of tags\<close>

lemma note_reasons_tag_ok: "r \<in> note_reasons e \<Longrightarrow> tag_ok r"
  unfolding note_reasons_def tag_ok_def
  using split_parts_no_sep set_strip strip_strip by fastforce

lemma note_reasons_join:
  assumes "\<forall>w\<in>set ws. tag_ok w"
  shows "note_reasons (Some (join (CHR '','') ws)) = set ws"
proof (cases "ws = []")
  case True
  then show ?thesis by (simp add: note_reasons_def strip_def)
next
  case False
  have "\<forall>w\<in>set ws. CHR '','' \<notin> set w" using assms by (simp add: tag_ok_def)
  then have "split (CHR '','') (join (CHR '','') ws) = ws"
    using False by (simp add: split_join)
  moreover have "map strip ws = ws" using assms by (simp add: tag_ok_def map_idI)
  moreover have "filter (\<lambda>r. r \<noteq> []) ws = ws" using assms by (simp add: tag_ok_def)
  ultimately show ?thesis by (simp add: note_reasons_def)
qed

lemma finite_note_reasons: "finite (note_reasons e)"
  by (simp add: note_reasons_def)

lemma note_reasons_merge_note:
  assumes "tag_ok reason"
  shows "note_reasons (Some (merge_note existing reason)) = insert reason (note_reasons existing)"
proof -
  let ?S = "insert reason (note_reasons existing)"
  have fin: "finite ?S" by (simp add: finite_note_reasons)
  have st: "set (sorted_list_of_set ?S) = ?S"
    using fin by (rule set_sorted_list_of_set)
  have "\<forall>w\<in>?S. tag_ok w"
    using assms note_reasons_tag_ok by auto
  then have "\<forall>w\<in>set (sorted_list_of_set ?S). tag_ok w"
    by (simp only: st)
  then have "note_reasons (Some (join (CHR '','') (sorted_list_of_set ?S))) = set (sorted_list_of_set ?S)"
    by (rule note_reasons_join)
  then show ?thesis by (simp only: merge_note_def st)
qed

lemma merge_note_present:
  "reason \<in> note_reasons existing \<Longrightarrow>
   merge_note existing reason = join (CHR '','') (sorted_list_of_set (note_reasons existing))"
  by (simp add: merge_note_def insert_absorb)

lemma merge_note_again:
  assumes "tag_ok r" and "reason \<in> note_reasons (Some (merge_note existing r))"
  shows "merge_note (Some (merge_note existing r)) reason = merge_note existing r"
proof -
  have "note_reasons (Some (merge_note existing r)) = insert r (note_reasons existing)"
    using assms(1) by (rule note_reasons_merge_note)
  then show ?thesis using assms(2) by (simp add: merge_note_def insert_absorb)
qed

lemma merge_note_not_Nil: "reason \<noteq> [] \<Longrightarrow> merge_note existing reason \<noteq> []"
proof -
  assume r: "reason \<noteq> []"
  let ?S = "insert reason (note_reasons existing)"
  have fin: "finite ?S" by (simp add: finite_note_reasons)
  have st: "set (sorted_list_of_set ?S) = ?S"
    using fin by (rule set_sorted_list_of_set)
  have nonempty: "\<And>ws. reason \<in> set ws \<Longrightarrow> join (CHR '','') ws \<noteq> []"
  proof -
    fix ws show "reason \<in> set ws \<Longrightarrow> join (CHR '','') ws \<noteq> []"
      using r by (induction "CHR '',''" ws rule: join.induct) auto
  qed
  have "reason \<in> set (sorted_list_of_set ?S)" by (simp only: st) simp
  then show ?thesis unfolding merge_note_def by (rule nonempty)
qed

lemma tag_ok_ip_burst: "tag_ok ''ip_burst''"
  by code_simp

section \<open>Rows and their write-back\<close>

lemma find_map_replace:
  "find P xs = Some a \<Longrightarrow> P a' \<Longrightarrow>
   find P (map (\<lambda>x. if f x = f a then a' else x) xs) = Some a'"
  by (induction xs) (auto split: if_splits)

lemma get_attribution_by_user_flush:
  assumes "get_attribution_by_user st u = Some a" and "attr_id a' = attr_id a" and "joined_user_id a' = u"
  shows "get_attribution_by_user (flush_attribution st a') u = Some a'"
  using assms find_map_replace [of "\<lambda>x. joined_user_id x = u" "attributions st" a a' attr_id]
  by (simp add: get_attribution_by_user_def flush_attribution_def)

lemma get_attribution_flush:
  assumes "get_attribution st i = Some a" and "attr_id a' = attr_id a"
  shows "get_attribution (flush_attribution st a') i = Some a'"
proof -
  have "attr_id a = i" using assms(1) unfolding get_attribution_def by (metis (mono_tags, lifting) find_Some_iff)
  then show ?thesis
  using assms find_map_replace [of "\<lambda>x. attr_id x = i" "attributions st" a a' attr_id]
  by (simp add: get_attribution_def flush_attribution_def)
qed

lemma get_attribution_by_user_Some:
  "get_attribution_by_user st u = Some a \<Longrightarrow> joined_user_id a = u \<and> a \<in> set (attributions st)"
  unfolding get_attribution_by_user_def by (auto simp: find_Some_iff)

lemma get_attribution_Some:
  "get_attribution st i = Some a \<Longrightarrow> attr_id a = i \<and> a \<in> set (attributions st)"
  unfolding get_attribution_def by (auto simp: find_Some_iff)

lemma attributions_upsert_user [simp]:
  "attributions (fst (upsert_user st u n f l)) = attributions st"
  by (simp add: upsert_user_def Let_def split: option.splits)

lemma get_attribution_by_user_upsert [simp]:
  "get_attribution_by_user (fst (upsert_user st u n f l)) v = get_attribution_by_user st v"
  by (simp add: get_attribution_by_user_def)

lemma store_cancel_verification [simp]: "store (cancel_verification s u) = store s"
  by (simp add: cancel_verification_def split: option.splits)

lemma handle_leave_revokes:
  assumes "get_attribution_by_user (store s) (uid tu) = Some a"
    and "status a = PENDING \<or> status a = VERIFIED"
  shows "attributions (store (handle_leave s tu reason now)) =
           map (\<lambda>x. if attr_id x = attr_id a then a\<lparr>status := REVOKED\<rparr> else x) (attributions (store s))"
    and "get_attribution_by_user (store (handle_leave s tu reason now)) (uid tu) = Some (a\<lparr>status := REVOKED\<rparr>)"
proof -
  obtain st1 user where up: "upsert_user (store s) (uid tu) (username tu) (first_name tu) (last_name tu) = (st1, user)"
    by (cases "upsert_user (store s) (uid tu) (username tu) (first_name tu) (last_name tu)")
  then have st1: "st1 = fst (upsert_user (store s) (uid tu) (username tu) (first_name tu) (last_name tu))" by simp
  have g: "get_attribution_by_user st1 (uid tu) = Some a" using assms(1) by (simp add: st1)
  have at: "attributions st1 = attributions (store s)" by (simp add: st1)
  have hl: "store (handle_leave s tu reason now) = log_event (flush_attribution st1 (a\<lparr>status := REVOKED\<rparr>)) LEAVE (user_id user) (Some (affiliate_id a)) (LeaveRaw reason (attr_id a))"
    using assms(2) g up by (auto simp add: handle_leave_def update_attribution_status_def Let_def)
  show "attributions (store (handle_leave s tu reason now)) =
           map (\<lambda>x. if attr_id x = attr_id a then a\<lparr>status := REVOKED\<rparr> else x) (attributions (store s))"
    by (simp add: hl log_event_def flush_attribution_def at)
  have "get_attribution_by_user (flush_attribution st1 (a\<lparr>status := REVOKED\<rparr>)) (uid tu) = Some (a\<lparr>status := REVOKED\<rparr>)"
    using g get_attribution_by_user_Some[OF g] by (intro get_attribution_by_user_flush) auto
  then show "get_attribution_by_user (store (handle_leave s tu reason now)) (uid tu) = Some (a\<lparr>status := REVOKED\<rparr>)"
    by (simp add: hl log_event_def get_attribution_by_user_def)
qed


lemma split_three_not_Nil: "split c d = [p, a, i] \<Longrightarrow> d \<noteq> []"
  by (cases d) auto

lemma flush_flush:
  "attr_id b = attr_id a \<Longrightarrow>
   flush_attribution (flush_attribution st a) b = flush_attribution st b"
  by (simp add: flush_attribution_def comp_def)

lemma review_verify:
  assumes "cb_from_user cb \<noteq> None" and "cb_is_admin cb" and "cb_data cb = Some d"
    and "split (CHR '':'') d = [p, ''verify'', idstr]"
    and "py_int idstr = Some i" and "get_attribution (store s) i = Some a"
  shows "handle_review_callback py_int s cb =
           (if cb_answer_ok cb
            then cancel_verification
                   (s\<lparr>store := flush_attribution (store s)
                                 (a\<lparr>status := VERIFIED, verified_at := Some (cb_now cb),
                                    note_field := None\<rparr>)\<rparr>)
                   (joined_user_id a)
            else s\<lparr>store := flush_attribution (store s)
                               (a\<lparr>status := VERIFIED, verified_at := Some (cb_now cb),
                                  note_field := None\<rparr>)\<rparr>)"
proof -
  have "d \<noteq> []" using assms(4) by (rule split_three_not_Nil)
  then have t: "truthy (cb_data cb)" by (simp add: truthy_def assms(3))
  show ?thesis
    using assms t
    by (auto simp add: handle_review_callback_def update_attribution_status_def Let_def flush_flush)
qed

lemma review_revoke:
  assumes "cb_from_user cb \<noteq> None" and "cb_is_admin cb" and "cb_data cb = Some d"
    and "split (CHR '':'') d = [p, ''revoke'', idstr]"
    and "py_int idstr = Some i" and "get_attribution (store s) i = Some a"
  shows "handle_review_callback py_int s cb =
           (if cb_answer_ok cb
            then cancel_verification
                   (s\<lparr>store := flush_attribution (store s)
                                 (a\<lparr>status := REVOKED,
                                    note_field := Some (merge_note (note_field a) ''manual_revoke'')\<rparr>)\<rparr>)
                   (joined_user_id a)
            else s\<lparr>store := flush_attribution (store s)
                               (a\<lparr>status := REVOKED,
                                  note_field := Some (merge_note (note_field a) ''manual_revoke'')\<rparr>)\<rparr>)"
proof -
  have "d \<noteq> []" using assms(4) by (rule split_three_not_Nil)
  then have t: "truthy (cb_data cb)" by (simp add: truthy_def assms(3))
  show ?thesis
    using assms t
    by (auto simp add: handle_review_callback_def update_attribution_status_def Let_def flush_flush)
qed

lemma store_review_verify:
  assumes "cb_from_user cb \<noteq> None" and "cb_is_admin cb" and "cb_data cb = Some d"
    and "split (CHR '':'') d = [p, ''verify'', idstr]"
    and "py_int idstr = Some i" and "get_attribution (store s) i = Some a"
  shows "store (handle_review_callback py_int s cb) =
           flush_attribution (store s)
             (a\<lparr>status := VERIFIED, verified_at := Some (cb_now cb), note_field := None\<rparr>)"
  unfolding review_verify [where py_int = py_int and a = a, OF assms] by simp

lemma store_review_revoke:
  assumes "cb_from_user cb \<noteq> None" and "cb_is_admin cb" and "cb_data cb = Some d"
    and "split (CHR '':'') d = [p, ''revoke'', idstr]"
    and "py_int idstr = Some i" and "get_attribution (store s) i = Some a"
  shows "store (handle_review_callback py_int s cb) =
           flush_attribution (store s)
             (a\<lparr>status := REVOKED,
                note_field := Some (merge_note (note_field a) ''manual_revoke'')\<rparr>)"
  unfolding review_revoke [where py_int = py_int and a = a, OF assms] by simp

section \<open>Scheduling and cancelling\<close>

lemma cancel_none: "verification_tasks s u = None \<Longrightarrow> cancel_verification s u = s"
  by (simp add: cancel_verification_def)

lemma cancel_registry: "verification_tasks (cancel_verification s u) v = (if v = u then None else verification_tasks s v)"
  by (simp add: cancel_verification_def split: option.splits)

lemma cancel_loop_tasks:
  "loop_tasks (cancel_verification s u) k =
     (if verification_tasks s u = Some k then map_option (\<lambda>t. t\<lparr>task_cancelled := True\<rparr>) (loop_tasks s k)
      else loop_tasks s k)"
  by (auto simp add: cancel_verification_def task_cancel_def split: option.splits)

lemma cancel_misc [simp]:
  "task_seq (cancel_verification s u) = task_seq s"
  "loop_running (cancel_verification s u) = loop_running s"
  "subnet_events (cancel_verification s u) = subnet_events s"
  by (simp_all add: cancel_verification_def split: option.splits)

lemma tasks_ok_cancel: "tasks_ok s \<Longrightarrow> tasks_ok (cancel_verification s u)"
  unfolding tasks_ok_def
  by (auto simp: cancel_registry cancel_loop_tasks split: if_splits)

lemma live_timers_cancel: "tasks_ok s \<Longrightarrow> live_timers (cancel_verification s u) u = {}"
  unfolding tasks_ok_def live_timers_def
  by (auto simp: cancel_loop_tasks split: if_splits)

lemma schedule_registry:
  "loop_running s \<Longrightarrow>
   verification_tasks (schedule_verification s now u) v = (if v = u then Some (task_seq s) else verification_tasks s v)"
  by (simp add: schedule_verification_def Let_def cancel_registry)

lemma schedule_loop_tasks:
  "loop_running s \<Longrightarrow>
   loop_tasks (schedule_verification s now u) k =
     (if k = task_seq s
      then Some \<lparr>task_user = u, task_delay = VERIFICATION_DELAY_SECONDS, task_armed_at = now, task_cancelled = False\<rparr>
      else loop_tasks (cancel_verification s u) k)"
  by (simp add: schedule_verification_def Let_def)

lemma schedule_misc [simp]:
  "loop_running s \<Longrightarrow> task_seq (schedule_verification s now u) = Suc (task_seq s)"
  "loop_running (schedule_verification s now u) = loop_running s"
  "store (schedule_verification s now u) = store s"
  "subnet_events (schedule_verification s now u) = subnet_events s"
  by (simp_all add: schedule_verification_def Let_def)

lemma tasks_ok_schedule: "tasks_ok s \<Longrightarrow> tasks_ok (schedule_verification s now u)"
proof (cases "loop_running s")
  case False
  assume "tasks_ok s"
  then show ?thesis using False by (simp add: schedule_verification_def Let_def tasks_ok_cancel)
next
  case True
  assume ok: "tasks_ok s"
  have c: "tasks_ok (cancel_verification s u)" using ok by (rule tasks_ok_cancel)
  show ?thesis
    using c True unfolding tasks_ok_def
    by (auto simp: schedule_registry schedule_loop_tasks cancel_registry split: if_splits)
qed

lemma live_timers_schedule:
  assumes "tasks_ok s" and "loop_running s"
  shows "live_timers (schedule_verification s now u) u = {task_seq s}"
proof -
  have "live_timers (cancel_verification s u) u = {}" using assms(1) by (rule live_timers_cancel)
  then show ?thesis
    using assms(2) unfolding live_timers_def
    by (auto simp: schedule_loop_tasks split: if_splits)
qed

lemma scheduler_bookkeeping:
  "(verification_tasks s u = None \<longrightarrow> cancel_verification s u = s)
   \<and> (\<forall>h. verification_tasks s u = Some h \<longrightarrow>
        verification_tasks (cancel_verification s u) u = None
      \<and> loop_tasks (cancel_verification s u) h =
          map_option (\<lambda>t. t\<lparr>task_cancelled := True\<rparr>) (loop_tasks s h)
      \<and> (\<forall>v. v \<noteq> u \<longrightarrow> verification_tasks (cancel_verification s u) v = verification_tasks s v)
      \<and> (\<forall>k. k \<noteq> h \<longrightarrow> loop_tasks (cancel_verification s u) k = loop_tasks s k)
      \<and> store (cancel_verification s u) = store s)
   \<and> (tasks_ok s \<longrightarrow>
        tasks_ok (cancel_verification s u) \<and> live_timers (cancel_verification s u) u = {})
   \<and> (\<not> loop_running s \<longrightarrow> schedule_verification s now u = cancel_verification s u)
   \<and> (tasks_ok s \<and> loop_running s \<longrightarrow>
        tasks_ok (schedule_verification s now u)
      \<and> verification_tasks (schedule_verification s now u) u = Some (task_seq s)
      \<and> live_timers (schedule_verification s now u) u = {task_seq s}
      \<and> (\<forall>h. verification_tasks s u = Some h \<longrightarrow>
            loop_tasks (schedule_verification s now u) h =
              map_option (\<lambda>t. t\<lparr>task_cancelled := True\<rparr>) (loop_tasks s h))
      \<and> tasks_ok (schedule_verification (schedule_verification s now u) later u)
      \<and> verification_tasks (schedule_verification (schedule_verification s now u) later u) u =
          Some (Suc (task_seq s))
      \<and> live_timers (schedule_verification (schedule_verification s now u) later u) u =
          {Suc (task_seq s)}
      \<and> loop_tasks (schedule_verification (schedule_verification s now u) later u) (task_seq s) =
          Some \<lparr>task_user = u, task_delay = 600, task_armed_at = now, task_cancelled = True\<rparr>)"
proof (intro conjI impI allI)
  show "verification_tasks s u = None \<Longrightarrow> cancel_verification s u = s"
    by (rule cancel_none)
next
  fix h assume h: "verification_tasks s u = Some h"
  show "verification_tasks (cancel_verification s u) u = None"
    by (simp add: cancel_registry)
  show "loop_tasks (cancel_verification s u) h =
          map_option (\<lambda>t. t\<lparr>task_cancelled := True\<rparr>) (loop_tasks s h)"
    using h by (simp add: cancel_loop_tasks)
  show "store (cancel_verification s u) = store s" by simp
  show "\<And>v. v \<noteq> u \<Longrightarrow> verification_tasks (cancel_verification s u) v = verification_tasks s v"
    by (simp add: cancel_registry)
  show "\<And>k. k \<noteq> h \<Longrightarrow> loop_tasks (cancel_verification s u) k = loop_tasks s k"
    using h by (simp add: cancel_loop_tasks)
next
  assume "tasks_ok s"
  then show "tasks_ok (cancel_verification s u)" by (rule tasks_ok_cancel)
next
  assume "tasks_ok s"
  then show "live_timers (cancel_verification s u) u = {}" by (rule live_timers_cancel)
next
  show "\<not> loop_running s \<Longrightarrow> schedule_verification s now u = cancel_verification s u"
    by (simp add: schedule_verification_def Let_def)
next
  assume a: "tasks_ok s \<and> loop_running s"
  then have ok: "tasks_ok s" and r: "loop_running s" by simp_all
  let ?s1 = "schedule_verification s now u"
  show ok1: "tasks_ok ?s1" using ok by (rule tasks_ok_schedule)
  have r1: "loop_running ?s1" using r by simp
  have q1: "task_seq ?s1 = Suc (task_seq s)" using r by simp
  show reg1: "verification_tasks ?s1 u = Some (task_seq s)"
    using r by (simp add: schedule_registry)
  show "live_timers ?s1 u = {task_seq s}" using ok r by (rule live_timers_schedule)
  show "tasks_ok (schedule_verification ?s1 later u)" using ok1 by (rule tasks_ok_schedule)
  show "verification_tasks (schedule_verification ?s1 later u) u = Some (Suc (task_seq s))"
    using r1 by (simp add: schedule_registry q1)
  show "live_timers (schedule_verification ?s1 later u) u = {Suc (task_seq s)}"
    using live_timers_schedule [OF ok1 r1] by (simp add: q1)
  show "loop_tasks (schedule_verification ?s1 later u) (task_seq s) =
          Some \<lparr>task_user = u, task_delay = 600, task_armed_at = now, task_cancelled = True\<rparr>"
    using r r1 reg1
    by (simp add: schedule_loop_tasks [of ?s1] q1 cancel_loop_tasks schedule_loop_tasks [of s]
        VERIFICATION_DELAY_SECONDS_def)
  fix h assume h: "verification_tasks s u = Some h"
  then have "h < task_seq s" using ok by (auto simp: tasks_ok_def)
  then show "loop_tasks ?s1 h = map_option (\<lambda>t. t\<lparr>task_cancelled := True\<rparr>) (loop_tasks s h)"
    using r h by (simp add: schedule_loop_tasks cancel_loop_tasks)
qed

section \<open>The fired task\<close>

lemma update_status_store:
  "fst (update_attribution_status st now a new_status v) =
     flush_attribution st (a\<lparr>status := new_status,
        verified_at := (if new_status = VERIFIED then Some (case v of Some t \<Rightarrow> t | None \<Rightarrow> now) else v)\<rparr>)"
  by (simp add: update_attribution_status_def Let_def)

lemma verify_after_delay_registry:
  "verification_tasks (verify_after_delay s u w ok) v = (if v = u then None else verification_tasks s v)"
  by (simp add: verify_after_delay_def Let_def split: Wake.splits option.splits)

lemma verify_after_delay_misc [simp]:
  "loop_tasks (verify_after_delay s u w ok) = loop_tasks s"
  "task_seq (verify_after_delay s u w ok) = task_seq s"
  "subnet_events (verify_after_delay s u w ok) = subnet_events s"
  "loop_running (verify_after_delay s u w ok) = loop_running s"
  by (simp_all add: verify_after_delay_def Let_def split: Wake.splits option.splits)

lemma verify_after_delay_store:
  "store (verify_after_delay s u w ok) =
     (case w of
        CancelledError \<Rightarrow> store s
      | Elapsed now \<Rightarrow>
          if \<not> ok then store s
          else (case get_attribution_by_user (store s) u of
                  None \<Rightarrow> store s
                | Some a \<Rightarrow>
                    if status a = PENDING \<and> \<not> truthy (note_field a)
                    then flush_attribution (store s) (a\<lparr>status := VERIFIED, verified_at := Some now\<rparr>)
                    else store s))"
  by (simp add: verify_after_delay_def Let_def update_status_store split: Wake.splits option.splits)

lemma run_task_due:
  assumes "loop_tasks s h = Some t" and "\<not> task_cancelled t"
    and "task_armed_at t + seconds (task_delay t) \<le> now"
  shows "run_task s h now ok =
           (verify_after_delay s (task_user t) (Elapsed now) ok)\<lparr>loop_tasks := (loop_tasks s)(h := None)\<rparr>"
  using assms by (simp add: run_task_def)

section \<open>Joins\<close>

lemma upsert_user_frame [simp]:
  "affiliates (fst (upsert_user st u n f l)) = affiliates st"
  "events (fst (upsert_user st u n f l)) = events st"
  "attribution_seq (fst (upsert_user st u n f l)) = attribution_seq st"
  by (simp_all add: upsert_user_def Let_def split: option.splits)

lemma upsert_user_id [simp]: "user_id (snd (upsert_user st u n f l)) = u"
  by (auto simp add: upsert_user_def get_user_def Let_def find_Some_iff split: option.splits)

lemma get_affiliate_by_code_upsert [simp]:
  "get_affiliate_by_code (fst (upsert_user st u n f l)) c = get_affiliate_by_code st c"
  by (simp add: get_affiliate_by_code_def)

lemma handle_join_rejected:
  assumes "truthy (upd_invite_link upd)" and "join_rejected urlpath s upd"
  shows "handle_join urlpath net24 s upd =
           s\<lparr>subnet_events := fst (join_events net24 s upd),
             store := fst (upsert_user (store s) (uid (upd_user upd)) (username (upd_user upd))
                             (first_name (upd_user upd)) (last_name (upd_user upd)))\<rparr>"
proof -
  let ?u = "upsert_user (store s) (uid (upd_user upd)) (username (upd_user upd))
              (first_name (upd_user upd)) (last_name (upd_user upd))"
  let ?code = "extract_link_code urlpath (the (upd_invite_link upd))"
  show ?thesis
  proof (cases "get_affiliate_by_code (store s) ?code")
    case None
    then have "get_affiliate_by_code (fst ?u) ?code = None" by simp
    then show ?thesis
      using assms(1)
      by (simp add: handle_join_def join_events_def Let_def case_prod_beta)
  next
    case (Some affiliate)
    then have a: "get_affiliate_by_code (fst ?u) ?code = Some affiliate" by simp
    have r: "\<not> is_active affiliate \<or> owner_user_id affiliate = uid (upd_user upd)
          \<or> get_attribution_by_user (store s) (uid (upd_user upd)) \<noteq> None"
      using assms(2) Some by (simp add: join_rejected_def)
    have g: "get_attribution_by_user (fst ?u) (user_id (snd ?u)) = get_attribution_by_user (store s) (uid (upd_user upd))"
      by simp
    show ?thesis
      using assms(1) a r g
      by (auto simp add: handle_join_def join_events_def Let_def case_prod_beta)
  qed
qed

lemma handle_join_accepted:
  assumes "truthy (upd_invite_link upd)" and "\<not> join_rejected urlpath s upd"
  shows "handle_join urlpath net24 s upd =
           join_create (s\<lparr>subnet_events := fst (join_events net24 s upd)\<rparr>)
             (fst (upsert_user (store s) (uid (upd_user upd)) (username (upd_user upd))
                     (first_name (upd_user upd)) (last_name (upd_user upd))))
             (the (upd_invite_link upd))
             (extract_link_code urlpath (the (upd_invite_link upd)))
             (upd_user upd) (upd_request_ip upd) (ip_subnet net24 (upd_request_ip upd))
             (upd_now upd)
             ((if snd (join_events net24 s upd) then [''ip_burst''] else []) @
              (if is_fresh_account (upd_user upd) then [''fresh_account''] else []))
             (the (get_affiliate_by_code (store s)
                     (extract_link_code urlpath (the (upd_invite_link upd)))))
             (snd (upsert_user (store s) (uid (upd_user upd)) (username (upd_user upd))
                     (first_name (upd_user upd)) (last_name (upd_user upd))))"
proof -
  let ?u = "upsert_user (store s) (uid (upd_user upd)) (username (upd_user upd))
              (first_name (upd_user upd)) (last_name (upd_user upd))"
  let ?code = "extract_link_code urlpath (the (upd_invite_link upd))"
  obtain affiliate where a: "get_affiliate_by_code (store s) ?code = Some affiliate"
    and r: "is_active affiliate" "owner_user_id affiliate \<noteq> uid (upd_user upd)"
      "get_attribution_by_user (store s) (uid (upd_user upd)) = None"
    using assms(2) by (auto simp add: join_rejected_def split: option.splits)
  have a': "get_affiliate_by_code (fst ?u) ?code = Some affiliate" using a by simp
  have g: "get_attribution_by_user (fst ?u) (user_id (snd ?u)) = None" using r(3) by simp
  show ?thesis
    using assms(1) a a' r g
    by (simp add: handle_join_def join_events_def Let_def case_prod_beta)
qed

lemma fold_cancel_registry:
  "verification_tasks
     (fold (\<lambda>u acc. if u \<noteq> t then cancel_verification acc u else acc) us s0) v =
   (if v \<in> set us \<and> v \<noteq> t then None else verification_tasks s0 v)"
  by (induction us arbitrary: s0) (auto simp: cancel_registry)

lemma fold_cancel_store [simp]:
  "store (fold (\<lambda>u acc. if u \<noteq> t then cancel_verification acc u else acc) us s0) = store s0"
  by (induction us arbitrary: s0) auto

lemma join_create_burst:
  assumes "''ip_burst'' \<in> set reasons" and "truthy (Some sn)"
  shows "store (join_create s1 st1 link_url code target ip (Some sn) now reasons affiliate joined_user) =
           log_event
             (fst (flag_subnet_burst
                     (fst (create_attribution st1 now affiliate joined_user (Some now) ip (Some sn)
                             (Some (join (CHR '','') reasons))))
                     sn (now - BURST_WINDOW)))
             JOIN (user_id joined_user) (Some (aff_id affiliate))
             (JoinRaw link_url code (attribution_seq st1) reasons ip (Some sn))"
    and "verification_tasks (join_create s1 st1 link_url code target ip (Some sn) now reasons affiliate joined_user) v =
           (if v = uid target \<or>
               v \<in> joined_user_id ` set (snd (flag_subnet_burst
                     (fst (create_attribution st1 now affiliate joined_user (Some now) ip (Some sn)
                             (Some (join (CHR '','') reasons))))
                     sn (now - BURST_WINDOW)))
            then None else verification_tasks s1 v)"
proof -
  have ne: "reasons \<noteq> []" using assms(1) by auto
  show "store (join_create s1 st1 link_url code target ip (Some sn) now reasons affiliate joined_user) =
           log_event
             (fst (flag_subnet_burst
                     (fst (create_attribution st1 now affiliate joined_user (Some now) ip (Some sn)
                             (Some (join (CHR '','') reasons))))
                     sn (now - BURST_WINDOW)))
             JOIN (user_id joined_user) (Some (aff_id affiliate))
             (JoinRaw link_url code (attribution_seq st1) reasons ip (Some sn))"
    using assms ne
    by (simp add: join_create_def Let_def case_prod_beta create_attribution_def)
  show "verification_tasks (join_create s1 st1 link_url code target ip (Some sn) now reasons affiliate joined_user) v =
           (if v = uid target \<or>
               v \<in> joined_user_id ` set (snd (flag_subnet_burst
                     (fst (create_attribution st1 now affiliate joined_user (Some now) ip (Some sn)
                             (Some (join (CHR '','') reasons))))
                     sn (now - BURST_WINDOW)))
            then None else verification_tasks s1 v)"
    using assms ne
    by (auto simp add: join_create_def Let_def case_prod_beta fold_cancel_registry cancel_registry)
qed

section \<open>The burst window\<close>

lemma popleft_old_dropWhile: "popleft_old now bucket = dropWhile (\<lambda>t. now - t > BURST_WINDOW) bucket"
  by (induction bucket) auto

lemma popleft_old_filter:
  "sorted bucket \<Longrightarrow> popleft_old now bucket = filter (\<lambda>t. now - t \<le> BURST_WINDOW) bucket"
proof (induction bucket)
  case Nil
  then show ?case by simp
next
  case (Cons t bucket)
  show ?case
  proof (cases "now - t > BURST_WINDOW")
    case True
    then show ?thesis using Cons by simp
  next
    case False
    have "\<forall>x \<in> set bucket. now - x \<le> BURST_WINDOW"
      using Cons.prems False by auto
    then have "filter (\<lambda>t. now - t \<le> BURST_WINDOW) bucket = bucket"
      by (simp add: filter_id_conv)
    then show ?thesis using False by simp
  qed
qed

lemma set_popleft_old: "set (popleft_old now bucket) \<subseteq> set bucket"
  by (simp add: popleft_old_dropWhile set_dropWhileD subsetI)

lemma sorted_popleft_old: "sorted bucket \<Longrightarrow> sorted (popleft_old now bucket)"
  by (simp add: popleft_old_dropWhile sorted_dropWhile)

lemma record_subnet_event_bucket:
  "fst (record_subnet_event evs subnet now) subnet = popleft_old now (evs subnet) @ [now]"
  "other \<noteq> subnet \<Longrightarrow> fst (record_subnet_event evs subnet now) other = evs other"
  "snd (record_subnet_event evs subnet now) = (3 \<le> length (popleft_old now (evs subnet)))"
  by (auto simp add: record_subnet_event_def Let_def BURST_THRESHOLD_def)

lemma attributions_create:
  "attributions (fst (create_attribution st now affiliate joined_user joined ip subnet nt)) =
     attributions st @ [snd (create_attribution st now affiliate joined_user joined ip subnet nt)]"
  by (simp add: create_attribution_def Let_def)

lemma create_attribution_row:
  "snd (create_attribution st now affiliate joined_user (Some t) ip subnet nt) =
     \<lparr>attr_id = attribution_seq st, joined_user_id = user_id joined_user,
      affiliate_id = aff_id affiliate, joined_at = t, verified_at = None, status = PENDING,
      note_field = nt, last_seen_ip = ip, source_subnet = subnet\<rparr>"
  by (simp add: create_attribution_def Let_def)

lemma flag_subnet_burst_rows:
  "attributions (fst (flag_subnet_burst st subnet since)) =
     map (\<lambda>a. if source_subnet a = Some subnet \<and> since \<le> joined_at a
               then a\<lparr>status := PENDING, verified_at := None,
                      note_field := Some (merge_note (note_field a) ''ip_burst'')\<rparr>
               else a) (attributions st)"
  "joined_user_id ` set (snd (flag_subnet_burst st subnet since)) =
     joined_user_id ` {a \<in> set (attributions st). source_subnet a = Some subnet \<and> since \<le> joined_at a}"
  by (auto simp add: flag_subnet_burst_def burst_selected_def burst_reopen_def image_iff)

section \<open>The leaderboard\<close>
















section \<open>Rows that no timer verifies\<close>

lemma held_cong:
  "attributions st' = attributions st \<Longrightarrow> attribution_seq st' = attribution_seq st \<Longrightarrow>
   held st' i = held st i"
  by (simp add: held_def store_ok_def get_attribution_def)

lemma find_distinct_key:
  "distinct (map f xs) \<Longrightarrow> a \<in> set xs \<Longrightarrow> find (\<lambda>x. f x = f a) xs = Some a"
  by (induction xs) (auto simp: image_iff)

lemma find_map_option: "find P (map f xs) = map_option f (find (P \<circ> f) xs)"
  by (induction xs) auto

lemma held_map:
  assumes h: "held st i"
    and f: "\<forall>x \<in> set (attributions st). attr_id (f x) = attr_id x
              \<and> joined_user_id (f x) = joined_user_id x \<and> (f x = x \<or> \<not> eligible (f x))"
    and a: "attributions st' = map f (attributions st)"
    and q: "attribution_seq st' = attribution_seq st"
  shows "held st' i"
proof -
  have ok: "store_ok st" using h by (simp add: held_def)
  obtain a0 where a0: "get_attribution st i = Some a0" and ne: "\<not> eligible a0"
    using h by (auto simp add: held_def)
  have m1: "map attr_id (map f (attributions st)) = map attr_id (attributions st)"
    using f by (simp add: comp_def cong: map_cong)
  have m2: "map joined_user_id (map f (attributions st)) = map joined_user_id (attributions st)"
    using f by (simp add: comp_def cong: map_cong)
  have ok': "store_ok st'"
    using ok f unfolding store_ok_def a q m1 m2 by auto
  have "find ((\<lambda>x. attr_id x = i) \<circ> f) (attributions st) = find (\<lambda>x. attr_id x = i) (attributions st)"
    using f by (intro find_cong) auto
  then have "get_attribution st' i = map_option f (get_attribution st i)"
    by (simp add: get_attribution_def a find_map_option)
  then have g: "get_attribution st' i = Some (f a0)" using a0 by simp
  have "a0 \<in> set (attributions st)" using a0 get_attribution_Some by blast
  then have "f a0 = a0 \<or> \<not> eligible (f a0)" using f by blast
  then have "\<not> eligible (f a0)" using ne by auto
  then show ?thesis using ok' g by (auto simp add: held_def)
qed

lemma held_flush:
  assumes h: "held st i" and b: "b \<in> set (attributions st)"
    and k: "attr_id b' = attr_id b" "joined_user_id b' = joined_user_id b" and ne: "\<not> eligible b'"
  shows "held (flush_attribution st b') i"
proof -
  have d: "distinct (map attr_id (attributions st))" using h by (simp add: held_def store_ok_def)
  have same: "\<And>x. x \<in> set (attributions st) \<Longrightarrow> attr_id x = attr_id b \<Longrightarrow> x = b"
    using d b by (meson distinct_map inj_onD)
  show ?thesis
  proof (rule held_map [OF h, where f = "\<lambda>x. if attr_id x = attr_id b' then b' else x"])
    show "\<forall>x\<in>set (attributions st).
       attr_id (if attr_id x = attr_id b' then b' else x) = attr_id x \<and>
       joined_user_id (if attr_id x = attr_id b' then b' else x) = joined_user_id x \<and>
       ((if attr_id x = attr_id b' then b' else x) = x \<or> \<not> eligible (if attr_id x = attr_id b' then b' else x))"
      using k ne same by auto
    show "attributions (flush_attribution st b') =
      map (\<lambda>x. if attr_id x = attr_id b' then b' else x) (attributions st)"
      by (simp add: flush_attribution_def)
    show "attribution_seq (flush_attribution st b') = attribution_seq st"
      by (simp add: flush_attribution_def)
  qed
qed

lemma held_unchanged_row:
  assumes h: "held st i" and b: "b \<in> set (attributions st)" and e: "eligible b"
    and k: "attr_id b' = attr_id b"
  shows "get_attribution (flush_attribution st b') i = get_attribution st i"
proof -
  obtain a0 where a0: "get_attribution st i = Some a0" and ne: "\<not> eligible a0"
    using h by (auto simp add: held_def)
  have "attr_id a0 = i" using a0 get_attribution_Some by blast
  have d: "distinct (map attr_id (attributions st))" using h by (simp add: held_def store_ok_def)
  have "find (\<lambda>x. attr_id x = attr_id b) (attributions st) = Some b"
    using d b by (rule find_distinct_key)
  then have "attr_id b \<noteq> i" using a0 e ne by (auto simp add: get_attribution_def)
  then have "find ((\<lambda>x. attr_id x = i) \<circ> (\<lambda>x. if attr_id x = attr_id b' then b' else x)) (attributions st)
         = find (\<lambda>x. attr_id x = i) (attributions st)"
    using k by (intro find_cong) auto
  moreover have "map_option (\<lambda>x. if attr_id x = attr_id b' then b' else x) (Some a0) = Some a0"
    using \<open>attr_id a0 = i\<close> \<open>attr_id b \<noteq> i\<close> k by simp
  ultimately show ?thesis
    using a0 by (simp add: get_attribution_def flush_attribution_def find_map_option)
qed

lemma store_ok_flush:
  assumes ok: "store_ok st" and b: "b \<in> set (attributions st)"
    and k: "attr_id b' = attr_id b" "joined_user_id b' = joined_user_id b"
  shows "store_ok (flush_attribution st b')"
proof -
  have d: "distinct (map attr_id (attributions st))" using ok by (simp add: store_ok_def)
  have same: "\<And>x. x \<in> set (attributions st) \<Longrightarrow> attr_id x = attr_id b \<Longrightarrow> x = b"
    using d b by (meson distinct_map inj_onD)
  let ?f = "\<lambda>x. if attr_id x = attr_id b' then b' else x"
  have f: "\<forall>x \<in> set (attributions st). attr_id (?f x) = attr_id x \<and> joined_user_id (?f x) = joined_user_id x"
    using k same by auto
  have m1: "map attr_id (map ?f (attributions st)) = map attr_id (attributions st)"
    using f by (simp add: comp_def cong: map_cong)
  have m2: "map joined_user_id (map ?f (attributions st)) = map joined_user_id (attributions st)"
    using f by (simp add: comp_def cong: map_cong)
  have a: "attributions (flush_attribution st b') = map ?f (attributions st)"
    by (simp add: flush_attribution_def)
  have q: "attribution_seq (flush_attribution st b') = attribution_seq st"
    by (simp add: flush_attribution_def)
  show ?thesis
    using ok f unfolding store_ok_def a q m1 m2 by auto
qed

lemma held_after_flush:
  assumes ok: "store_ok st" and g: "get_attribution st i = Some b"
    and k: "attr_id b' = attr_id b" "joined_user_id b' = joined_user_id b" and ne: "\<not> eligible b'"
  shows "held (flush_attribution st b') i"
proof -
  have b: "b \<in> set (attributions st)" using g get_attribution_Some by blast
  have "store_ok (flush_attribution st b')" using ok b k by (rule store_ok_flush)
  moreover have "get_attribution (flush_attribution st b') i = Some b'"
    using g k(1) by (rule get_attribution_flush)
  ultimately show ?thesis using ne by (auto simp add: held_def)
qed

lemma held_verify_after_delay:
  assumes h: "held (store s) i"
  shows "held (store (verify_after_delay s u w ok)) i
       \<and> get_attribution (store (verify_after_delay s u w ok)) i = get_attribution (store s) i"
proof (cases "\<exists>now b. w = Elapsed now \<and> ok \<and> get_attribution_by_user (store s) u = Some b \<and> eligible b")
  case True
  then obtain now b where w: "w = Elapsed now" and ok: "ok"
    and g: "get_attribution_by_user (store s) u = Some b" and e: "eligible b" by blast
  let ?b = "b\<lparr>status := VERIFIED, verified_at := Some now\<rparr>"
  have st: "store (verify_after_delay s u w ok) = flush_attribution (store s) ?b"
    using w ok g e by (simp add: verify_after_delay_store eligible_def)
  have b: "b \<in> set (attributions (store s))" using g get_attribution_by_user_Some by blast
  have "held (flush_attribution (store s) ?b) i"
    using h b by (rule held_flush) (simp_all add: eligible_def)
  moreover have "get_attribution (flush_attribution (store s) ?b) i = get_attribution (store s) i"
    using h b e by (rule held_unchanged_row) simp
  ultimately show ?thesis by (simp add: st)
next
  case False
  then have "store (verify_after_delay s u w ok) = store s"
    by (auto simp add: verify_after_delay_store eligible_def split: Wake.splits option.splits)
  then show ?thesis using h by simp
qed

lemma store_run_task:
  "store (run_task s h now ok) = store s \<or>
   (\<exists>u w. store (run_task s h now ok) = store (verify_after_delay s u w ok))"
  by (auto simp add: run_task_def split: option.splits)

lemma held_run_task:
  assumes h: "held (store s) i"
  shows "held (store (run_task s k now ok)) i
       \<and> get_attribution (store (run_task s k now ok)) i = get_attribution (store s) i"
  using store_run_task [of s k now ok] held_verify_after_delay [OF h] h by auto

lemma held_upsert_user: "held (fst (upsert_user st u n f l)) i = held st i"
  by (rule held_cong) simp_all

lemma held_log_event: "held (log_event st ty u a r) i = held st i"
  by (rule held_cong) (simp_all add: log_event_def)

lemma held_handle_leave:
  assumes h: "held (store s) i"
  shows "held (store (handle_leave s tu reason now)) i"
proof -
  let ?u = "upsert_user (store s) (uid tu) (username tu) (first_name tu) (last_name tu)"
  have hu: "held (fst ?u) i" using h by (simp add: held_upsert_user)
  show ?thesis
  proof (cases "\<exists>b. get_attribution_by_user (store s) (uid tu) = Some b \<and> (status b = PENDING \<or> status b = VERIFIED)")
    case True
    then obtain b where g: "get_attribution_by_user (store s) (uid tu) = Some b"
      and st: "status b = PENDING \<or> status b = VERIFIED" by blast
    have b: "b \<in> set (attributions (fst ?u))" using g get_attribution_by_user_Some by fastforce
    have "held (flush_attribution (fst ?u) (b\<lparr>status := REVOKED\<rparr>)) i"
      using hu b by (rule held_flush) (simp_all add: eligible_def)
    moreover have "store (handle_leave s tu reason now) =
        log_event (flush_attribution (fst ?u) (b\<lparr>status := REVOKED\<rparr>)) LEAVE (user_id (snd ?u))
          (Some (affiliate_id b)) (LeaveRaw reason (attr_id b))"
      using g st by (auto simp add: handle_leave_def update_attribution_status_def Let_def case_prod_beta)
    ultimately show ?thesis by (simp add: held_log_event)
  next
    case False
    then have "store (handle_leave s tu reason now) = fst ?u"
      by (auto simp add: handle_leave_def Let_def case_prod_beta split: option.splits)
    then show ?thesis using hu by simp
  qed
qed

lemma review_cases:
  "handle_review_callback py_int s cb = s \<or>
   (\<exists>b b'. b \<in> set (attributions (store s)) \<and> attr_id b' = attr_id b
      \<and> joined_user_id b' = joined_user_id b \<and> \<not> eligible b'
      \<and> store (handle_review_callback py_int s cb) = flush_attribution (store s) b')"
proof (cases "cb_from_user cb \<noteq> None \<and> cb_is_admin cb \<and> truthy (cb_data cb)")
  case False
  then show ?thesis by (auto simp add: handle_review_callback_def)
next
  case True
  then obtain d where d: "cb_data cb = Some d" by (auto simp add: truthy_def split: option.splits)
  show ?thesis
  proof (cases "\<exists>p action idstr i b. split (CHR '':'') d = [p, action, idstr] \<and> py_int idstr = Some i
                  \<and> get_attribution (store s) i = Some b \<and> (action = ''verify'' \<or> action = ''revoke'')")
    case True
    then obtain p action idstr i b where sp: "split (CHR '':'') d = [p, action, idstr]"
      and pi: "py_int idstr = Some i" and g: "get_attribution (store s) i = Some b"
      and ac: "action = ''verify'' \<or> action = ''revoke''" by blast
    have b: "b \<in> set (attributions (store s))" using g get_attribution_Some by blast
    from ac show ?thesis
    proof
      assume "action = ''verify''"
      then have "store (handle_review_callback py_int s cb) =
          flush_attribution (store s) (b\<lparr>status := VERIFIED, verified_at := Some (cb_now cb), note_field := None\<rparr>)"
        using True sp pi g d \<open>cb_from_user cb \<noteq> None \<and> cb_is_admin cb \<and> truthy (cb_data cb)\<close>
          store_review_verify [where cb = cb and d = d and p = p and idstr = idstr and py_int = py_int
            and i = i and s = s and a = b]
        by simp
      then show ?thesis using b by (intro disjI2 exI conjI) (auto simp add: eligible_def)
    next
      assume "action = ''revoke''"
      then have "store (handle_review_callback py_int s cb) =
          flush_attribution (store s) (b\<lparr>status := REVOKED,
             note_field := Some (merge_note (note_field b) ''manual_revoke'')\<rparr>)"
        using True sp pi g d \<open>cb_from_user cb \<noteq> None \<and> cb_is_admin cb \<and> truthy (cb_data cb)\<close>
          store_review_revoke [where cb = cb and d = d and p = p and idstr = idstr and py_int = py_int
            and i = i and s = s and a = b]
        by simp
      then show ?thesis using b by (intro disjI2 exI conjI) (auto simp add: eligible_def)
    qed
  next
    case False
    then have "handle_review_callback py_int s cb = s"
      using d by (auto simp add: handle_review_callback_def split: list.splits option.splits)
    then show ?thesis by simp
  qed
qed

lemma held_review:
  assumes h: "held (store s) i"
  shows "held (store (handle_review_callback py_int s cb)) i"
  using review_cases [of py_int s cb] h held_flush [OF h] by auto

lemma find_append_Some: "find P xs = Some a \<Longrightarrow> find P (xs @ ys) = Some a"
  by (induction xs) (auto split: if_splits)

lemma held_create:
  assumes h: "held st i" and n: "get_attribution_by_user st (user_id ju) = None"
  shows "held (fst (create_attribution st now aff ju joined ip subnet nt)) i"
proof -
  have ok: "store_ok st" using h by (simp add: held_def)
  obtain a0 where a0: "get_attribution st i = Some a0" and ne: "\<not> eligible a0"
    using h by (auto simp add: held_def)
  have u: "user_id ju \<notin> joined_user_id ` set (attributions st)"
    using n by (auto simp add: get_attribution_by_user_def find_None_iff)
  have q: "attribution_seq st \<notin> attr_id ` set (attributions st)"
    using ok by (auto simp add: store_ok_def)
  have "store_ok (fst (create_attribution st now aff ju joined ip subnet nt))"
    using ok u q by (auto simp add: store_ok_def create_attribution_def Let_def)
  moreover have "get_attribution (fst (create_attribution st now aff ju joined ip subnet nt)) i = Some a0"
    using a0 by (simp add: get_attribution_def create_attribution_def Let_def find_append_Some)
  ultimately show ?thesis using ne by (auto simp add: held_def)
qed

lemma held_flag_subnet_burst:
  assumes h: "held st i"
  shows "held (fst (flag_subnet_burst st subnet since)) i"
proof (rule held_map [OF h, where f = "\<lambda>a. if burst_selected subnet since a then burst_reopen a else a"])
  have "\<And>e. truthy (Some (merge_note e ''ip_burst''))"
    using merge_note_not_Nil [of "''ip_burst''"] by (simp add: truthy_def)
  then have "\<And>a. \<not> eligible (burst_reopen a)"
    by (simp add: eligible_def burst_reopen_def)
  then show "\<forall>x\<in>set (attributions st).
       attr_id (if burst_selected subnet since x then burst_reopen x else x) = attr_id x \<and>
       joined_user_id (if burst_selected subnet since x then burst_reopen x else x) = joined_user_id x \<and>
       ((if burst_selected subnet since x then burst_reopen x else x) = x \<or>
        \<not> eligible (if burst_selected subnet since x then burst_reopen x else x))"
    by (auto simp add: burst_reopen_def)
  show "attributions (fst (flag_subnet_burst st subnet since)) =
    map (\<lambda>a. if burst_selected subnet since a then burst_reopen a else a) (attributions st)"
    by (simp add: flag_subnet_burst_def)
  show "attribution_seq (fst (flag_subnet_burst st subnet since)) = attribution_seq st"
    by (simp add: flag_subnet_burst_def)
qed

lemma store_join_create:
  "store (join_create s1 st1 link_url code target ip subnet now reasons aff ju) =
     log_event
       (if ''ip_burst'' \<in> set reasons \<and> truthy subnet
        then fst (flag_subnet_burst
                    (fst (create_attribution st1 now aff ju (Some now) ip subnet
                            (if reasons \<noteq> [] then Some (join (CHR '','') reasons) else None)))
                    (the subnet) (now - BURST_WINDOW))
        else fst (create_attribution st1 now aff ju (Some now) ip subnet
                    (if reasons \<noteq> [] then Some (join (CHR '','') reasons) else None)))
       JOIN (user_id ju) (Some (aff_id aff))
       (JoinRaw link_url code (attribution_seq st1) reasons ip subnet)"
  by (simp add: join_create_def Let_def case_prod_beta create_attribution_def)

lemma held_join_create:
  assumes h: "held st1 i" and n: "get_attribution_by_user st1 (user_id ju) = None"
  shows "held (store (join_create s1 st1 link_url code target ip subnet now reasons aff ju)) i"
proof -
  let ?c = "fst (create_attribution st1 now aff ju (Some now) ip subnet
                    (if reasons \<noteq> [] then Some (join (CHR '','') reasons) else None))"
  have c: "held ?c i" using h n by (rule held_create)
  then have "held (fst (flag_subnet_burst ?c (the subnet) (now - BURST_WINDOW))) i"
    by (rule held_flag_subnet_burst)
  then show ?thesis using c
    unfolding store_join_create by (simp add: held_log_event)
qed

lemma held_handle_join:
  assumes h: "held (store s) i"
  shows "held (store (handle_join urlpath net24 s upd)) i"
proof -
  let ?u = "upsert_user (store s) (uid (upd_user upd)) (username (upd_user upd))
              (first_name (upd_user upd)) (last_name (upd_user upd))"
  have hu: "held (fst ?u) i" using h by (simp add: held_upsert_user)
  consider (nolink) "\<not> truthy (upd_invite_link upd)"
    | (rejected) "truthy (upd_invite_link upd)" "join_rejected urlpath s upd"
    | (accepted) "truthy (upd_invite_link upd)" "\<not> join_rejected urlpath s upd"
    by blast
  then show ?thesis
  proof cases
    case nolink
    then show ?thesis using h by (simp add: handle_join_def)
  next
    case rejected
    then show ?thesis using hu by (simp add: handle_join_rejected)
  next
    case accepted
    have n: "get_attribution_by_user (store s) (uid (upd_user upd)) = None"
      using accepted(2) by (auto simp add: join_rejected_def split: option.splits)
    then have n': "get_attribution_by_user (fst ?u) (user_id (snd ?u)) = None" by simp
    show ?thesis
      unfolding handle_join_accepted [OF accepted]
      using hu n' by (rule held_join_create)
  qed
qed

lemma held_step:
  "held (store s) i \<Longrightarrow> held (store (step urlpath net24 py_int s ev)) i"
  by (cases ev) (simp_all add: step_def held_handle_join held_handle_leave held_review held_run_task)

lemma held_run_steps:
  "held (store s) i \<Longrightarrow> held (store (run_steps urlpath net24 py_int s evs)) i"
  unfolding run_steps_def
  by (induction evs arbitrary: s) (simp_all add: held_step)

lemma tasks_ok_store [simp]: "tasks_ok (s\<lparr>store := st\<rparr>) = tasks_ok s"
  by (simp add: tasks_ok_def)

lemma live_timers_store [simp]: "live_timers (s\<lparr>store := st\<rparr>) u = live_timers s u"
  by (simp add: live_timers_def)

lemma review_effects:
  assumes "cb_from_user cb \<noteq> None" and "cb_is_admin cb" and "cb_data cb = Some d"
    and "split (CHR '':'') d = [p, action, idstr]"
    and "action = ''verify'' \<or> action = ''revoke''"
    and "py_int idstr = Some i" and "get_attribution (store s) i = Some a"
  shows "(cb_answer_ok cb \<longrightarrow>
            verification_tasks (handle_review_callback py_int s cb) (joined_user_id a) = None
          \<and> (\<forall>h. verification_tasks s (joined_user_id a) = Some h \<longrightarrow>
                loop_tasks (handle_review_callback py_int s cb) h =
                  map_option (\<lambda>t. t\<lparr>task_cancelled := True\<rparr>) (loop_tasks s h)))
       \<and> (\<not> cb_answer_ok cb \<longrightarrow>
            verification_tasks (handle_review_callback py_int s cb) = verification_tasks s
          \<and> loop_tasks (handle_review_callback py_int s cb) = loop_tasks s)
       \<and> (action = ''verify'' \<longrightarrow>
             get_attribution (store (handle_review_callback py_int s cb)) i =
               Some (a\<lparr>status := VERIFIED, verified_at := Some (cb_now cb), note_field := None\<rparr>))
       \<and> (action = ''revoke'' \<longrightarrow>
             get_attribution (store (handle_review_callback py_int s cb)) i =
               Some (a\<lparr>status := REVOKED,
                       note_field := Some (merge_note (note_field a) ''manual_revoke'')\<rparr>))
       \<and> (store_ok (store s) \<longrightarrow>
             (\<forall>evs. held (store (run_steps urlpath net24 py_int (handle_review_callback py_int s cb) evs)) i
                \<and> (\<forall>h now ok.
                      get_attribution
                        (store (run_task (run_steps urlpath net24 py_int
                                            (handle_review_callback py_int s cb) evs) h now ok)) i =
                      get_attribution
                        (store (run_steps urlpath net24 py_int
                                  (handle_review_callback py_int s cb) evs)) i)))"
proof -
  let ?v = "a\<lparr>status := VERIFIED, verified_at := Some (cb_now cb), note_field := None\<rparr>"
  let ?r = "a\<lparr>status := REVOKED, note_field := Some (merge_note (note_field a) ''manual_revoke'')\<rparr>"
  let ?s' = "handle_review_callback py_int s cb"
  obtain a' where eq: "?s' = (if cb_answer_ok cb
        then cancel_verification (s\<lparr>store := flush_attribution (store s) a'\<rparr>) (joined_user_id a)
        else s\<lparr>store := flush_attribution (store s) a'\<rparr>)"
    and a': "a' = (if action = ''verify'' then ?v else ?r)"
  proof (cases "action = ''verify''")
    case True
    then have "?s' = (if cb_answer_ok cb
        then cancel_verification (s\<lparr>store := flush_attribution (store s) ?v\<rparr>) (joined_user_id a)
        else s\<lparr>store := flush_attribution (store s) ?v\<rparr>)"
      using assms review_verify [where cb = cb and d = d and p = p and idstr = idstr
          and py_int = py_int and i = i and s = s and a = a] by simp
    then show ?thesis using that True by simp
  next
    case False
    then have r: "action = ''revoke''" using assms(5) by simp
    then have "?s' = (if cb_answer_ok cb
        then cancel_verification (s\<lparr>store := flush_attribution (store s) ?r\<rparr>) (joined_user_id a)
        else s\<lparr>store := flush_attribution (store s) ?r\<rparr>)"
      using assms review_revoke [where cb = cb and d = d and p = p and idstr = idstr
          and py_int = py_int and i = i and s = s and a = a] by simp
    then show ?thesis using that False by simp
  qed
  have ids: "attr_id a' = attr_id a" "joined_user_id a' = joined_user_id a" and ne: "\<not> eligible a'"
    by (simp_all add: a' eligible_def)
  have st: "store ?s' = flush_attribution (store s) a'" by (simp add: eq)
  have g: "get_attribution (store ?s') i = Some a'"
    unfolding st using assms(7) ids(1) by (rule get_attribution_flush)
  have c1: "cb_answer_ok cb \<longrightarrow>
            verification_tasks ?s' (joined_user_id a) = None
          \<and> (\<forall>h. verification_tasks s (joined_user_id a) = Some h \<longrightarrow>
                loop_tasks ?s' h = map_option (\<lambda>t. t\<lparr>task_cancelled := True\<rparr>) (loop_tasks s h))"
    by (simp add: eq cancel_registry cancel_loop_tasks)
  have c2: "\<not> cb_answer_ok cb \<longrightarrow>
            verification_tasks ?s' = verification_tasks s \<and> loop_tasks ?s' = loop_tasks s"
    by (simp add: eq)
  have c4: "action = ''verify'' \<longrightarrow> get_attribution (store ?s') i = Some ?v"
    using g by (simp add: a')
  have "''verify'' \<noteq> ''revoke''" by simp
  then have c5: "action = ''revoke'' \<longrightarrow> get_attribution (store ?s') i = Some ?r"
    using g by (auto simp add: a')
  have c6: "store_ok (store s) \<longrightarrow>
             (\<forall>evs. held (store (run_steps urlpath net24 py_int ?s' evs)) i
                \<and> (\<forall>h now ok.
                      get_attribution (store (run_task (run_steps urlpath net24 py_int ?s' evs) h now ok)) i =
                      get_attribution (store (run_steps urlpath net24 py_int ?s' evs)) i))"
  proof (intro impI allI)
    fix evs
    assume ok: "store_ok (store s)"
    have "held (store ?s') i"
      unfolding st using ok assms(7) ids ne by (rule held_after_flush)
    then have h: "held (store (run_steps urlpath net24 py_int ?s' evs)) i"
      by (rule held_run_steps)
    show "held (store (run_steps urlpath net24 py_int ?s' evs)) i
                \<and> (\<forall>h now ok.
                      get_attribution (store (run_task (run_steps urlpath net24 py_int ?s' evs) h now ok)) i =
                      get_attribution (store (run_steps urlpath net24 py_int ?s' evs)) i)"
      using h held_run_task [OF h] by blast
  qed
  show ?thesis
    by (intro conjI) (fact c1 c2 c4 c5 c6)+
qed

section \<open>Claims\<close>

text \<open>
  C1. The task armed by \<open>schedule_verification\<close> is registered for its user with
  a delay of 600 seconds and does not run before that delay has elapsed. When a
  task that was not cancelled runs after its delay, it reads the attribution of
  its user again: if the session works and the row is pending with no note, the
  row becomes verified with the time of the run as its verification timestamp
  and nothing else in the table changes; if the row is absent, not pending or
  carries a note (or the session fails), the database is left as it was. On
  every path the task has left the registry and the loop afterwards.
\<close>

theorem timer_fires:
  "(loop_running s \<longrightarrow>
      verification_tasks (schedule_verification s t0 u) u = Some (task_seq s)
    \<and> loop_tasks (schedule_verification s t0 u) (task_seq s) =
        Some \<lparr>task_user = u, task_delay = 600, task_armed_at = t0, task_cancelled = False\<rparr>
    \<and> (\<forall>early ok. early < t0 + seconds 600 \<longrightarrow>
          run_task (schedule_verification s t0 u) (task_seq s) early ok = schedule_verification s t0 u))
   \<and> (loop_tasks s h = Some t \<and> \<not> task_cancelled t \<and> task_armed_at t + seconds (task_delay t) \<le> now \<longrightarrow>
        verification_tasks (run_task s h now db_ok) (task_user t) = None
      \<and> loop_tasks (run_task s h now db_ok) h = None
      \<and> (\<forall>a. db_ok \<and> get_attribution_by_user (store s) (task_user t) = Some a
              \<and> status a = PENDING \<and> \<not> truthy (note_field a) \<longrightarrow>
            attributions (store (run_task s h now db_ok)) =
              map (\<lambda>x. if attr_id x = attr_id a then a\<lparr>status := VERIFIED, verified_at := Some now\<rparr> else x)
                (attributions (store s))
          \<and> get_attribution_by_user (store (run_task s h now db_ok)) (task_user t) =
              Some (a\<lparr>status := VERIFIED, verified_at := Some now\<rparr>))
      \<and> (\<not> db_ok \<or> get_attribution_by_user (store s) (task_user t) = None
          \<or> (\<exists>a. get_attribution_by_user (store s) (task_user t) = Some a
                 \<and> (status a \<noteq> PENDING \<or> truthy (note_field a)))
          \<longrightarrow> store (run_task s h now db_ok) = store s))"
proof (intro conjI impI)
  assume r: "loop_running s"
  show "verification_tasks (schedule_verification s t0 u) u = Some (task_seq s)"
    using r by (simp add: schedule_registry)
  show l: "loop_tasks (schedule_verification s t0 u) (task_seq s) =
        Some \<lparr>task_user = u, task_delay = 600, task_armed_at = t0, task_cancelled = False\<rparr>"
    using r by (simp add: schedule_loop_tasks VERIFICATION_DELAY_SECONDS_def)
  show "\<forall>early ok. early < t0 + seconds 600 \<longrightarrow>
          run_task (schedule_verification s t0 u) (task_seq s) early ok = schedule_verification s t0 u"
    by (simp add: run_task_def l)
next
  assume h: "loop_tasks s h = Some t \<and> \<not> task_cancelled t \<and> task_armed_at t + seconds (task_delay t) \<le> now"
  then have eq: "run_task s h now db_ok =
      (verify_after_delay s (task_user t) (Elapsed now) db_ok)\<lparr>loop_tasks := (loop_tasks s)(h := None)\<rparr>"
    by (simp add: run_task_due)
  show "verification_tasks (run_task s h now db_ok) (task_user t) = None"
    by (simp add: eq verify_after_delay_registry)
  show "loop_tasks (run_task s h now db_ok) h = None"
    by (simp add: eq)
  show "\<forall>a. db_ok \<and> get_attribution_by_user (store s) (task_user t) = Some a
              \<and> status a = PENDING \<and> \<not> truthy (note_field a) \<longrightarrow>
            attributions (store (run_task s h now db_ok)) =
              map (\<lambda>x. if attr_id x = attr_id a then a\<lparr>status := VERIFIED, verified_at := Some now\<rparr> else x)
                (attributions (store s))
          \<and> get_attribution_by_user (store (run_task s h now db_ok)) (task_user t) =
              Some (a\<lparr>status := VERIFIED, verified_at := Some now\<rparr>)"
  proof (intro allI impI)
    fix a
    assume a: "db_ok \<and> get_attribution_by_user (store s) (task_user t) = Some a
              \<and> status a = PENDING \<and> \<not> truthy (note_field a)"
    have g: "get_attribution_by_user (store s) (task_user t) = Some a" using a by simp
    have p: "status a = PENDING \<and> \<not> truthy (note_field a)" using a by simp
    have ok: "db_ok" using a by simp
    have "store (run_task s h now db_ok) = store (verify_after_delay s (task_user t) (Elapsed now) db_ok)"
      by (simp add: eq)
    also have "\<dots> = flush_attribution (store s) (a\<lparr>status := VERIFIED, verified_at := Some now\<rparr>)"
      using g p ok by (simp add: verify_after_delay_store)
    finally have st: "store (run_task s h now db_ok) =
        flush_attribution (store s) (a\<lparr>status := VERIFIED, verified_at := Some now\<rparr>)" .
    have u: "joined_user_id a = task_user t" using get_attribution_by_user_Some [OF g] by simp
    have "get_attribution_by_user (flush_attribution (store s) (a\<lparr>status := VERIFIED, verified_at := Some now\<rparr>)) (task_user t)
            = Some (a\<lparr>status := VERIFIED, verified_at := Some now\<rparr>)"
      using g u by (intro get_attribution_by_user_flush) simp_all
    then show "attributions (store (run_task s h now db_ok)) =
              map (\<lambda>x. if attr_id x = attr_id a then a\<lparr>status := VERIFIED, verified_at := Some now\<rparr> else x)
                (attributions (store s))
          \<and> get_attribution_by_user (store (run_task s h now db_ok)) (task_user t) =
              Some (a\<lparr>status := VERIFIED, verified_at := Some now\<rparr>)"
      by (simp add: st flush_attribution_def)
  qed
  assume "\<not> db_ok \<or> get_attribution_by_user (store s) (task_user t) = None
          \<or> (\<exists>a. get_attribution_by_user (store s) (task_user t) = Some a
                 \<and> (status a \<noteq> PENDING \<or> truthy (note_field a)))"
  then show "store (run_task s h now db_ok) = store s"
    by (auto simp add: eq verify_after_delay_store)
qed


theorem timer_fires_witness:
  "map_option status
     (get_attribution_by_user
        (store (run_task (schedule_verification (demo_state [demo_row 5 42 0 PENDING None None None]) 0 42)
                  0 600000000 True)) 42) = Some VERIFIED
   \<and> map_option verified_at
     (get_attribution_by_user
        (store (run_task (schedule_verification (demo_state [demo_row 5 42 0 PENDING None None None]) 0 42)
                  0 600000000 True)) 42) = Some (Some 600000000)
   \<and> verification_tasks
        (run_task (schedule_verification (demo_state [demo_row 5 42 0 PENDING None None None]) 0 42)
           0 600000000 True) 42 = None
   \<and> run_task (schedule_verification (demo_state [demo_row 5 42 0 PENDING None None None]) 0 42)
        0 599999999 True
       = schedule_verification (demo_state [demo_row 5 42 0 PENDING None None None]) 0 42
   \<and> store (run_task
        (schedule_verification (demo_state [demo_row 5 42 0 PENDING None (Some ''ip_burst'') None]) 0 42)
        0 600000000 True)
       = store (schedule_verification (demo_state [demo_row 5 42 0 PENDING None (Some ''ip_burst'') None]) 0 42)"
proof -
  let ?s0 = "demo_state [demo_row 5 42 0 PENDING None None None]"
  let ?f0 = "demo_state [demo_row 5 42 0 PENDING None (Some ''ip_burst'') None]"
  let ?t = "\<lparr>task_user = 42, task_delay = 600, task_armed_at = 0, task_cancelled = False\<rparr>"
  have r: "loop_running ?s0" "loop_running ?f0" by (simp_all add: demo_state_def)
  have q: "task_seq ?s0 = 0" "task_seq ?f0 = 0" by (simp_all add: demo_state_def)
  have g: "get_attribution_by_user (store (schedule_verification ?s0 0 42)) 42
             = Some (demo_row 5 42 0 PENDING None None None)"
    "get_attribution_by_user (store (schedule_verification ?f0 0 42)) 42
             = Some (demo_row 5 42 0 PENDING None (Some ''ip_burst'') None)"
    by (simp_all add: get_attribution_by_user_def demo_state_def demo_store_def demo_row_def)
  note a = timer_fires [where s = ?s0 and ?t0.0 = 0 and u = 42]
  note b = timer_fires [where s = "schedule_verification ?s0 0 42" and h = 0 and t = ?t
      and now = 600000000 and db_ok = True]
  note c = timer_fires [where s = "schedule_verification ?f0 0 42" and h = 0 and t = ?t
      and now = 600000000 and db_ok = True]
  note d = timer_fires [where s = ?f0 and ?t0.0 = 0 and u = 42]
  show ?thesis
    using a b c d r q g
    by (simp add: seconds_def demo_row_def truthy_def)
qed

text \<open>
  C2, as the code has it. \<open>_record_subnet_event\<close> drops entries at the left of
  the queue of the subnet while the oldest is more than five minutes old, which
  on a time-ordered queue drops exactly the entries older than the window,
  appends the new timestamp (the queue stays time-ordered when the clock does
  not run backwards), leaves the other queues alone, and reports a burst exactly
  when the queue then holds more than three entries: when three or more earlier
  joins lie within the window. When a burst is reported on a join that passes
  the guards of \<open>_handle_join\<close>, the new attribution and every attribution of
  that subnet that joined within the window become pending with \<open>ip_burst\<close> in
  their note and lose their verification timestamp, and the timers of their
  users are no longer registered.
\<close>

theorem burst_detection:
  "fst (record_subnet_event evs subnet now) subnet = popleft_old now (evs subnet) @ [now]
   \<and> (\<forall>other. other \<noteq> subnet \<longrightarrow> fst (record_subnet_event evs subnet now) other = evs other)
   \<and> popleft_old now (evs subnet) = dropWhile (\<lambda>t. now - t > BURST_WINDOW) (evs subnet)
   \<and> (sorted (evs subnet) \<longrightarrow>
        popleft_old now (evs subnet) = filter (\<lambda>t. now - t \<le> BURST_WINDOW) (evs subnet))
   \<and> (sorted (evs subnet) \<and> (\<forall>t \<in> set (evs subnet). t \<le> now) \<longrightarrow>
        sorted (fst (record_subnet_event evs subnet now) subnet))
   \<and> snd (record_subnet_event evs subnet now) =
       (3 < length (fst (record_subnet_event evs subnet now) subnet))
   \<and> (sorted (evs subnet) \<longrightarrow>
        snd (record_subnet_event evs subnet now) =
          (3 \<le> length (filter (\<lambda>t. now - t \<le> BURST_WINDOW) (evs subnet))))
   \<and> BURST_WINDOW = seconds 300
   \<and> (truthy (upd_invite_link upd) \<and> \<not> join_rejected urlpath s upd
       \<and> ip_subnet net24 (upd_request_ip upd) = Some sn \<and> sn \<noteq> []
       \<and> snd (record_subnet_event (subnet_events s) sn (upd_now upd))
      \<longrightarrow> attributions (store (handle_join urlpath net24 s upd)) =
            map (\<lambda>a. if source_subnet a = Some sn \<and> upd_now upd - BURST_WINDOW \<le> joined_at a
                      then a\<lparr>status := PENDING, verified_at := None,
                             note_field := Some (merge_note (note_field a) ''ip_burst'')\<rparr>
                      else a)
              (attributions (store s) @
               [\<lparr>attr_id = attribution_seq (store s),
                 joined_user_id = uid (upd_user upd),
                 affiliate_id = aff_id (the (get_affiliate_by_code (store s)
                                  (extract_link_code urlpath (the (upd_invite_link upd))))),
                 joined_at = upd_now upd,
                 verified_at = None,
                 status = PENDING,
                 note_field = Some (join (CHR '','')
                                (''ip_burst'' # (if is_fresh_account (upd_user upd)
                                                 then [''fresh_account''] else []))),
                 last_seen_ip = upd_request_ip upd,
                 source_subnet = Some sn\<rparr>])
        \<and> (\<forall>a \<in> set (attributions (store s)).
              source_subnet a = Some sn \<and> upd_now upd - BURST_WINDOW \<le> joined_at a
              \<longrightarrow> verification_tasks (handle_join urlpath net24 s upd) (joined_user_id a) = None)
        \<and> verification_tasks (handle_join urlpath net24 s upd) (uid (upd_user upd)) = None)"
proof (intro conjI impI allI)
  show "fst (record_subnet_event evs subnet now) subnet = popleft_old now (evs subnet) @ [now]"
    by (rule record_subnet_event_bucket)
  show "\<And>other. other \<noteq> subnet \<Longrightarrow> fst (record_subnet_event evs subnet now) other = evs other"
    by (rule record_subnet_event_bucket)
  show "popleft_old now (evs subnet) = dropWhile (\<lambda>t. now - t > BURST_WINDOW) (evs subnet)"
    by (rule popleft_old_dropWhile)
  show "sorted (evs subnet) \<Longrightarrow>
        popleft_old now (evs subnet) = filter (\<lambda>t. now - t \<le> BURST_WINDOW) (evs subnet)"
    by (rule popleft_old_filter)
  show "sorted (evs subnet) \<and> (\<forall>t \<in> set (evs subnet). t \<le> now) \<Longrightarrow>
        sorted (fst (record_subnet_event evs subnet now) subnet)"
    using set_popleft_old [of now "evs subnet"] sorted_popleft_old [of "evs subnet" now]
    by (auto simp add: record_subnet_event_bucket sorted_append)
  show "snd (record_subnet_event evs subnet now) =
       (3 < length (fst (record_subnet_event evs subnet now) subnet))"
    by (auto simp add: record_subnet_event_bucket)
  show "sorted (evs subnet) \<Longrightarrow>
        snd (record_subnet_event evs subnet now) =
          (3 \<le> length (filter (\<lambda>t. now - t \<le> BURST_WINDOW) (evs subnet)))"
    by (simp add: record_subnet_event_bucket popleft_old_filter)
  show "BURST_WINDOW = seconds 300" by (simp add: BURST_WINDOW_def)
next
  assume h: "truthy (upd_invite_link upd) \<and> \<not> join_rejected urlpath s upd
       \<and> ip_subnet net24 (upd_request_ip upd) = Some sn \<and> sn \<noteq> []
       \<and> snd (record_subnet_event (subnet_events s) sn (upd_now upd))"
  let ?u = "upsert_user (store s) (uid (upd_user upd)) (username (upd_user upd))
              (first_name (upd_user upd)) (last_name (upd_user upd))"
  let ?reasons = "''ip_burst'' # (if is_fresh_account (upd_user upd) then [''fresh_account''] else [])"
  let ?aff = "the (get_affiliate_by_code (store s) (extract_link_code urlpath (the (upd_invite_link upd))))"
  let ?s1 = "s\<lparr>subnet_events := fst (join_events net24 s upd)\<rparr>"
  have t: "truthy (Some sn)" using h by (simp add: truthy_def)
  have je: "snd (join_events net24 s upd)" using h t by (simp add: join_events_def)
  have eq: "handle_join urlpath net24 s upd =
      join_create ?s1 (fst ?u) (the (upd_invite_link upd))
        (extract_link_code urlpath (the (upd_invite_link upd)))
        (upd_user upd) (upd_request_ip upd) (Some sn) (upd_now upd) ?reasons ?aff (snd ?u)"
    using h je handle_join_accepted [of upd urlpath s net24] by simp
  have m: "''ip_burst'' \<in> set ?reasons" by simp
  note st = join_create_burst(1) [OF m t]
  note vt = join_create_burst(2) [OF m t]
  show "attributions (store (handle_join urlpath net24 s upd)) =
            map (\<lambda>a. if source_subnet a = Some sn \<and> upd_now upd - BURST_WINDOW \<le> joined_at a
                      then a\<lparr>status := PENDING, verified_at := None,
                             note_field := Some (merge_note (note_field a) ''ip_burst'')\<rparr>
                      else a)
              (attributions (store s) @
               [\<lparr>attr_id = attribution_seq (store s),
                 joined_user_id = uid (upd_user upd),
                 affiliate_id = aff_id ?aff,
                 joined_at = upd_now upd,
                 verified_at = None,
                 status = PENDING,
                 note_field = Some (join (CHR '','') ?reasons),
                 last_seen_ip = upd_request_ip upd,
                 source_subnet = Some sn\<rparr>])"
    unfolding eq st
    by (simp add: log_event_def flag_subnet_burst_rows(1) attributions_create
        create_attribution_row)
  have user: "verification_tasks (handle_join urlpath net24 s upd) (uid (upd_user upd)) = None"
    unfolding eq vt by simp
  show "verification_tasks (handle_join urlpath net24 s upd) (uid (upd_user upd)) = None"
    by (rule user)
  show "\<forall>a \<in> set (attributions (store s)).
              source_subnet a = Some sn \<and> upd_now upd - BURST_WINDOW \<le> joined_at a
              \<longrightarrow> verification_tasks (handle_join urlpath net24 s upd) (joined_user_id a) = None"
  proof (intro ballI impI)
    fix a
    assume a: "a \<in> set (attributions (store s))"
      and sel: "source_subnet a = Some sn \<and> upd_now upd - BURST_WINDOW \<le> joined_at a"
    have "joined_user_id a \<in> joined_user_id `
          {x \<in> set (attributions (fst ?u) @ [snd (create_attribution (fst ?u) (upd_now upd) ?aff (snd ?u)
                 (Some (upd_now upd)) (upd_request_ip upd) (Some sn) (Some (join (CHR '','') ?reasons)))]).
             source_subnet x = Some sn \<and> upd_now upd - BURST_WINDOW \<le> joined_at x}"
      using a sel by auto
    then show "verification_tasks (handle_join urlpath net24 s upd) (joined_user_id a) = None"
      unfolding eq vt flag_subnet_burst_rows(2) attributions_create by simp
  qed
qed


theorem burst_detection_witness:
  "snd (record_subnet_event (subnet_events (demo_bursting [])) ''10.0.0.0/24'' 400)
   \<and> \<not> snd (record_subnet_event (subnet_events (demo_bursting [])) ''10.0.0.0/24'' 300000101)
   \<and> attributions (store (handle_join demo_urlpath demo_net24
        (demo_bursting [demo_row 5 41 300 VERIFIED (Some 350) None (Some ''10.0.0.0/24'')])
        (demo_join ''https://t.me/+abc'' 42 (Some ''10.0.0.7'') 400))) =
       [demo_row 5 41 300 PENDING None (Some ''ip_burst'') (Some ''10.0.0.0/24''),
        \<lparr>attr_id = 10, joined_user_id = 42, affiliate_id = 1, joined_at = 400,
         verified_at = None, status = PENDING, note_field = Some ''ip_burst'',
         last_seen_ip = Some ''10.0.0.7'', source_subnet = Some ''10.0.0.0/24''\<rparr>]
   \<and> verification_tasks (handle_join demo_urlpath demo_net24
        (demo_bursting [demo_row 5 41 300 VERIFIED (Some 350) None (Some ''10.0.0.0/24'')])
        (demo_join ''https://t.me/+abc'' 42 (Some ''10.0.0.7'') 400)) 41 = None"
proof -
  let ?r = "demo_row 5 41 300 VERIFIED (Some 350) None (Some ''10.0.0.0/24'')"
  let ?s = "demo_bursting [?r]"
  let ?j = "demo_join ''https://t.me/+abc'' 42 (Some ''10.0.0.7'') 400"
  have c: "extract_link_code demo_urlpath ''https://t.me/+abc'' = ''+abc''"
    by (simp add: extract_link_code_def demo_urlpath_def strip_char_def)
  have t: "truthy (upd_invite_link ?j)" by (simp add: demo_join_def truthy_def)
  have a: "get_affiliate_by_code (store ?s) ''+abc'' = Some demo_affiliate"
    by (simp add: get_affiliate_by_code_def demo_bursting_def demo_state_def demo_store_def
        demo_affiliate_def)
  have g: "get_attribution_by_user (store ?s) 42 = None"
    by (simp add: get_attribution_by_user_def demo_bursting_def demo_state_def demo_store_def
        demo_row_def)
  have nr: "\<not> join_rejected demo_urlpath ?s ?j"
    using a g by (simp add: join_rejected_def demo_join_def demo_user_def c demo_affiliate_def)
  have ip: "ip_subnet demo_net24 (upd_request_ip ?j) = Some ''10.0.0.0/24''"
    by (simp add: ip_subnet_def demo_net24_def demo_join_def truthy_def)
  have b: "snd (record_subnet_event (subnet_events ?s) ''10.0.0.0/24'' (upd_now ?j))"
    by (simp add: record_subnet_event_def demo_bursting_def demo_state_def demo_join_def
        BURST_WINDOW_def seconds_def BURST_THRESHOLD_def)
  have b0: "snd (record_subnet_event (subnet_events (demo_bursting [])) ''10.0.0.0/24'' 400)"
    by (simp add: record_subnet_event_def demo_bursting_def demo_state_def
        BURST_WINDOW_def seconds_def BURST_THRESHOLD_def)
  have b1: "\<not> snd (record_subnet_event (subnet_events (demo_bursting [])) ''10.0.0.0/24'' 300000101)"
    by (simp add: record_subnet_event_def demo_bursting_def demo_state_def
        BURST_WINDOW_def seconds_def BURST_THRESHOLD_def)
  have m1: "merge_note None ''ip_burst'' = ''ip_burst''" by code_simp
  have m2: "merge_note (Some ''ip_burst'') ''ip_burst'' = ''ip_burst''" by code_simp
  have f: "\<not> is_fresh_account (upd_user ?j)"
    by (simp add: is_fresh_account_def demo_join_def demo_user_def)
  have rows: "attributions (store ?s) = [?r]" "attribution_seq (store ?s) = 10"
    by (simp_all add: demo_bursting_def demo_state_def demo_store_def)
  have u: "upd_now ?j = 400" "upd_request_ip ?j = Some ''10.0.0.7''" "uid (upd_user ?j) = 42"
    "upd_invite_link ?j = Some ''https://t.me/+abc''"
    by (simp_all add: demo_join_def demo_user_def)
  have fr: "source_subnet ?r = Some ''10.0.0.0/24''" "joined_at ?r = 300" "note_field ?r = None"
    "joined_user_id ?r = 41"
    "?r\<lparr>status := PENDING, verified_at := None, note_field := Some ''ip_burst''\<rparr> =
       demo_row 5 41 300 PENDING None (Some ''ip_burst'') (Some ''10.0.0.0/24'')"
    by (simp_all add: demo_row_def)
  have h: "truthy (upd_invite_link ?j) \<and> \<not> join_rejected demo_urlpath ?s ?j
       \<and> ip_subnet demo_net24 (upd_request_ip ?j) = Some ''10.0.0.0/24'' \<and> ''10.0.0.0/24'' \<noteq> []
       \<and> snd (record_subnet_event (subnet_events ?s) ''10.0.0.0/24'' (upd_now ?j))"
    using t nr ip b by simp
  note w = burst_detection [where upd = ?j and s = ?s and urlpath = demo_urlpath
      and ?net24.0 = demo_net24 and sn = "''10.0.0.0/24''" and evs = "\<lambda>subnet. []"
      and subnet = "[]" and now = 0]
  note x = mp [OF w [THEN conjunct2, THEN conjunct2, THEN conjunct2, THEN conjunct2,
        THEN conjunct2, THEN conjunct2, THEN conjunct2, THEN conjunct2] h]
  show ?thesis
    using x b0 b1
    by (simp add: f rows u c a fr m1 m2 demo_affiliate_def BURST_WINDOW_def seconds_def)
qed

text \<open>
  C2 as stated fails: a burst reported on a join that the guards turn away (here
  a link that names no affiliate) reopens nothing. The subnet has had three
  joins, the fourth is reported as a burst, and the pending attribution of that
  subnet inside the window stays as it was.
\<close>

theorem burst_without_attribution_counterexample:
  "ip_subnet demo_net24 (Some ''10.0.0.7'') = Some ''10.0.0.0/24''
   \<and> snd (record_subnet_event
            (subnet_events (demo_bursting [demo_row 5 41 300 PENDING None None (Some ''10.0.0.0/24'')]))
            ''10.0.0.0/24'' 400)
   \<and> source_subnet (demo_row 5 41 300 PENDING None None (Some ''10.0.0.0/24'')) = Some ''10.0.0.0/24''
   \<and> 400 - BURST_WINDOW \<le> joined_at (demo_row 5 41 300 PENDING None None (Some ''10.0.0.0/24''))
   \<and> attributions (store (handle_join demo_urlpath demo_net24
        (demo_bursting [demo_row 5 41 300 PENDING None None (Some ''10.0.0.0/24'')])
        (demo_join ''https://t.me/+zzz'' 42 (Some ''10.0.0.7'') 400))) =
       [demo_row 5 41 300 PENDING None None (Some ''10.0.0.0/24'')]
   \<and> subnet_events (handle_join demo_urlpath demo_net24
        (demo_bursting [demo_row 5 41 300 PENDING None None (Some ''10.0.0.0/24'')])
        (demo_join ''https://t.me/+zzz'' 42 (Some ''10.0.0.7'') 400)) ''10.0.0.0/24'' =
       [100, 200, 300, 400]"
proof -
  let ?r = "demo_row 5 41 300 PENDING None None (Some ''10.0.0.0/24'')"
  let ?s = "demo_bursting [?r]"
  let ?j = "demo_join ''https://t.me/+zzz'' 42 (Some ''10.0.0.7'') 400"
  have c: "extract_link_code demo_urlpath ''https://t.me/+zzz'' = ''+zzz''"
    by (simp add: extract_link_code_def demo_urlpath_def strip_char_def)
  have t: "truthy (upd_invite_link ?j)" by (simp add: demo_join_def truthy_def)
  have a: "get_affiliate_by_code (store ?s) ''+zzz'' = None"
    by (simp add: get_affiliate_by_code_def demo_bursting_def demo_state_def demo_store_def
        demo_affiliate_def)
  have r: "join_rejected demo_urlpath ?s ?j"
    using a by (simp add: join_rejected_def demo_join_def c)
  have ip: "ip_subnet demo_net24 (Some ''10.0.0.7'') = Some ''10.0.0.0/24''"
    by (simp add: ip_subnet_def demo_net24_def truthy_def)
  have b: "snd (record_subnet_event (subnet_events ?s) ''10.0.0.0/24'' 400)"
    by (simp add: record_subnet_event_def demo_bursting_def demo_state_def
        BURST_WINDOW_def seconds_def BURST_THRESHOLD_def)
  have w: "source_subnet ?r = Some ''10.0.0.0/24''" "400 - BURST_WINDOW \<le> joined_at ?r"
    by (simp_all add: demo_row_def BURST_WINDOW_def seconds_def)
  have rows: "attributions (store (handle_join demo_urlpath demo_net24 ?s ?j)) = [?r]"
    unfolding handle_join_rejected [OF t r]
    by (simp add: demo_bursting_def demo_state_def demo_store_def)
  have ev: "subnet_events (handle_join demo_urlpath demo_net24 ?s ?j) ''10.0.0.0/24'' = [100, 200, 300, 400]"
    unfolding handle_join_rejected [OF t r]
    by (simp add: join_events_def demo_join_def ip truthy_def record_subnet_event_def
        demo_bursting_def demo_state_def BURST_WINDOW_def seconds_def)
  show ?thesis using ip b w rows ev by simp
qed

text \<open>
  C3, as the code has it. An account is flagged exactly when it is a bot, or it is
  not premium, has no handle and its trimmed first name has at most two
  characters. The bot test comes first: among the accounts that are not bots, a
  premium account is never flagged and an account with a handle is never
  flagged.
\<close>

theorem is_fresh_account_iff:
  "is_fresh_account user =
     (is_bot user \<or>
      (is_premium user \<noteq> Some True \<and> \<not> truthy (username user) \<and>
       length (strip (case first_name user of None \<Rightarrow> [] | Some f \<Rightarrow> f)) \<le> 2))
   \<and> (is_bot user \<longrightarrow> is_fresh_account user)
   \<and> (\<not> is_bot user \<and> is_premium user = Some True \<longrightarrow> \<not> is_fresh_account user)
   \<and> (\<not> is_bot user \<and> truthy (username user) \<longrightarrow> \<not> is_fresh_account user)"
  by (auto simp: is_fresh_account_def truthy_def Let_def split: option.splits)

theorem is_fresh_account_iff_witness:
  "\<not> is_fresh_account \<lparr>uid = 7, is_bot = False, username = None, first_name = Some ''Al'',
                          last_name = None, is_premium = Some True\<rparr>
   \<and> \<not> is_fresh_account \<lparr>uid = 8, is_bot = False, username = Some ''al'', first_name = Some ''Al'',
                          last_name = None, is_premium = None\<rparr>
   \<and> is_fresh_account \<lparr>uid = 9, is_bot = True, username = Some ''al_bot'', first_name = Some ''Albert'',
                        last_name = None, is_premium = None\<rparr>"
  using
    is_fresh_account_iff [of "\<lparr>uid = 7, is_bot = False, username = None, first_name = Some ''Al'',
                              last_name = None, is_premium = Some True\<rparr>"]
    is_fresh_account_iff [of "\<lparr>uid = 8, is_bot = False, username = Some ''al'', first_name = Some ''Al'',
                              last_name = None, is_premium = None\<rparr>"]
    is_fresh_account_iff [of "\<lparr>uid = 9, is_bot = True, username = Some ''al_bot'', first_name = Some ''Albert'',
                              last_name = None, is_premium = None\<rparr>"]
  by (simp add: truthy_def)

text \<open>
  C3 as stated fails on a bot: a bot with a handle, premium or not, is flagged.
\<close>

theorem is_fresh_account_bot_counterexample:
  "truthy (username \<lparr>uid = 9, is_bot = True, username = Some ''al_bot'', first_name = Some ''Albert'',
                     last_name = None, is_premium = Some True\<rparr>)
   \<and> is_premium \<lparr>uid = 9, is_bot = True, username = Some ''al_bot'', first_name = Some ''Albert'',
                  last_name = None, is_premium = Some True\<rparr> = Some True
   \<and> is_fresh_account \<lparr>uid = 9, is_bot = True, username = Some ''al_bot'', first_name = Some ''Albert'',
                        last_name = None, is_premium = Some True\<rparr>"
  by (simp add: is_fresh_account_def truthy_def)

text \<open>The examples of the specification: \<open>Al\<close> is flagged, \<open>Alex\<close> is not.\<close>

lemma is_fresh_account_examples:
  "is_fresh_account \<lparr>uid = 1, is_bot = False, username = None, first_name = Some ''Al'',
                      last_name = None, is_premium = None\<rparr>"
  "\<not> is_fresh_account \<lparr>uid = 1, is_bot = False, username = None, first_name = Some ''Alex'',
                        last_name = None, is_premium = None\<rparr>"
  by (simp_all add: is_fresh_account_def strip_def isspace_def)

text \<open>
  C4. \<open>flag_subnet_burst\<close> adds and removes no row. Every row whose subnet is the
  given one and whose join time is at or after \<open>since\<close> becomes pending, loses its
  verification timestamp and has \<open>ip_burst\<close> merged into its note, whatever its
  status was; every other row, and every other table, is unchanged. The rows
  returned are the updated rows, so their joined users are the users affected,
  which \<open>_handle_join\<close> reads off to cancel their timers.
\<close>

theorem flag_subnet_burst_reopens:
  "length (attributions (fst (flag_subnet_burst st subnet since))) = length (attributions st)
   \<and> (\<forall>k < length (attributions st).
        (source_subnet (attributions st ! k) = Some subnet \<and> since \<le> joined_at (attributions st ! k)
           \<longrightarrow> attributions (fst (flag_subnet_burst st subnet since)) ! k =
                 (attributions st ! k)\<lparr>status := PENDING, verified_at := None,
                    note_field := Some (merge_note (note_field (attributions st ! k)) ''ip_burst'')\<rparr>
             \<and> note_reasons (note_field (attributions (fst (flag_subnet_burst st subnet since)) ! k)) =
                 insert ''ip_burst'' (note_reasons (note_field (attributions st ! k))))
      \<and> (\<not> (source_subnet (attributions st ! k) = Some subnet \<and> since \<le> joined_at (attributions st ! k))
           \<longrightarrow> attributions (fst (flag_subnet_burst st subnet since)) ! k = attributions st ! k))
   \<and> map joined_user_id (snd (flag_subnet_burst st subnet since)) =
       map joined_user_id
         (filter (\<lambda>a. source_subnet a = Some subnet \<and> since \<le> joined_at a) (attributions st))
   \<and> set (snd (flag_subnet_burst st subnet since)) \<subseteq> set (attributions (fst (flag_subnet_burst st subnet since)))
   \<and> users (fst (flag_subnet_burst st subnet since)) = users st
   \<and> affiliates (fst (flag_subnet_burst st subnet since)) = affiliates st
   \<and> events (fst (flag_subnet_burst st subnet since)) = events st
   \<and> attribution_seq (fst (flag_subnet_burst st subnet since)) = attribution_seq st"
proof -
  have sel: "burst_selected subnet since = (\<lambda>a. source_subnet a = Some subnet \<and> since \<le> joined_at a)"
    by (simp add: burst_selected_def fun_eq_iff)
  have n: "\<And>e. note_reasons (Some (merge_note e ''ip_burst'')) = insert ''ip_burst'' (note_reasons e)"
    using tag_ok_ip_burst by (rule note_reasons_merge_note)
  have ids: "map joined_user_id (snd (flag_subnet_burst st subnet since)) =
       map joined_user_id
         (filter (\<lambda>a. source_subnet a = Some subnet \<and> since \<le> joined_at a) (attributions st))"
    by (simp add: flag_subnet_burst_def sel burst_reopen_def comp_def)
  have sub: "set (snd (flag_subnet_burst st subnet since)) \<subseteq> set (attributions (fst (flag_subnet_burst st subnet since)))"
    by (auto simp add: flag_subnet_burst_def)
  have rows: "\<forall>k < length (attributions st).
        (source_subnet (attributions st ! k) = Some subnet \<and> since \<le> joined_at (attributions st ! k)
           \<longrightarrow> attributions (fst (flag_subnet_burst st subnet since)) ! k =
                 (attributions st ! k)\<lparr>status := PENDING, verified_at := None,
                    note_field := Some (merge_note (note_field (attributions st ! k)) ''ip_burst'')\<rparr>
             \<and> note_reasons (note_field (attributions (fst (flag_subnet_burst st subnet since)) ! k)) =
                 insert ''ip_burst'' (note_reasons (note_field (attributions st ! k))))
      \<and> (\<not> (source_subnet (attributions st ! k) = Some subnet \<and> since \<le> joined_at (attributions st ! k))
           \<longrightarrow> attributions (fst (flag_subnet_burst st subnet since)) ! k = attributions st ! k)"
    by (simp add: flag_subnet_burst_def sel burst_reopen_def n)
  have len: "length (attributions (fst (flag_subnet_burst st subnet since))) = length (attributions st)"
    by (simp add: flag_subnet_burst_def)
  have u1: "users (fst (flag_subnet_burst st subnet since)) = users st"
    by (simp add: flag_subnet_burst_def)
  have u2: "affiliates (fst (flag_subnet_burst st subnet since)) = affiliates st"
    by (simp add: flag_subnet_burst_def)
  have u3: "events (fst (flag_subnet_burst st subnet since)) = events st"
    by (simp add: flag_subnet_burst_def)
  have u4: "attribution_seq (fst (flag_subnet_burst st subnet since)) = attribution_seq st"
    by (simp add: flag_subnet_burst_def)
  show ?thesis
    by (intro conjI) (fact len rows ids sub u1 u2 u3 u4)+
qed

theorem flag_subnet_burst_reopens_witness:
  "attributions (fst (flag_subnet_burst
       (demo_store [demo_row 1 11 100 VERIFIED (Some 200) None (Some ''10.0.0.0/24''),
                    demo_row 2 12 100 VERIFIED (Some 200) None (Some ''10.0.1.0/24''),
                    demo_row 3 13 50 VERIFIED (Some 200) None (Some ''10.0.0.0/24'')])
       ''10.0.0.0/24'' 100)) =
     [demo_row 1 11 100 PENDING None (Some ''ip_burst'') (Some ''10.0.0.0/24''),
      demo_row 2 12 100 VERIFIED (Some 200) None (Some ''10.0.1.0/24''),
      demo_row 3 13 50 VERIFIED (Some 200) None (Some ''10.0.0.0/24'')]
   \<and> map joined_user_id (snd (flag_subnet_burst
       (demo_store [demo_row 1 11 100 VERIFIED (Some 200) None (Some ''10.0.0.0/24''),
                    demo_row 2 12 100 VERIFIED (Some 200) None (Some ''10.0.1.0/24''),
                    demo_row 3 13 50 VERIFIED (Some 200) None (Some ''10.0.0.0/24'')])
       ''10.0.0.0/24'' 100)) = [11]"
proof -
  have m: "merge_note None ''ip_burst'' = ''ip_burst''" by code_simp
  show ?thesis
    using flag_subnet_burst_reopens
      [of "demo_store [demo_row 1 11 100 VERIFIED (Some 200) None (Some ''10.0.0.0/24''),
                    demo_row 2 12 100 VERIFIED (Some 200) None (Some ''10.0.1.0/24''),
                    demo_row 3 13 50 VERIFIED (Some 200) None (Some ''10.0.0.0/24'')]"
          "''10.0.0.0/24''" 100]
    by (simp add: demo_store_def demo_row_def flag_subnet_burst_def burst_selected_def
        burst_reopen_def m)
qed





text \<open>
  C6. The registry is keyed by the user id, and the \<open>finally\<close> clause of a task
  removes the entry of its user whichever task that entry names. User 42 is
  scheduled at time 0 (task 0) and again at time 5, when task 0 sleeps: task 0
  is cancelled and task 1 is registered, the only live timer of the user. At the
  next turn of the loop task 0 receives its \<open>CancelledError\<close> and its clean-up
  removes the entry of user 42, which names task 1. Task 1 is still live and no
  longer registered: \<open>cancel_verification\<close> now changes nothing, and a third
  \<open>schedule_verification\<close> arms task 2 beside it. User 42 then has two live
  timers.
\<close>

theorem reschedule_cleanup_orphans_timer:
  "verification_tasks demo_rescheduled 42 = Some 1
   \<and> live_timers demo_rescheduled 42 = {1}
   \<and> map_option task_cancelled (loop_tasks demo_rescheduled 0) = Some True
   \<and> verification_tasks demo_cleaned 42 = None
   \<and> live_timers demo_cleaned 42 = {1}
   \<and> cancel_verification demo_cleaned 42 = demo_cleaned
   \<and> verification_tasks demo_third 42 = Some 2
   \<and> live_timers demo_third 42 = {1, 2}"
proof -
  let ?t = "\<lambda>now c. \<lparr>task_user = 42, task_delay = 600, task_armed_at = now, task_cancelled = c\<rparr>"
  have r2: "verification_tasks demo_rescheduled = [42 \<mapsto> 1]"
    and l2: "loop_tasks demo_rescheduled = [0 \<mapsto> ?t 0 True, 1 \<mapsto> ?t 5 False]"
    by (simp_all add: demo_rescheduled_def schedule_verification_def cancel_verification_def
        task_cancel_def demo_state_def VERIFICATION_DELAY_SECONDS_def Let_def fun_upd_twist)
  have r3: "verification_tasks demo_cleaned = Map.empty"
    and l3: "loop_tasks demo_cleaned = [1 \<mapsto> ?t 5 False]"
    by (simp_all add: demo_cleaned_def run_task_def verify_after_delay_def r2 l2 Let_def fun_upd_twist)
  have c3: "cancel_verification demo_cleaned 42 = demo_cleaned"
    by (simp add: cancel_verification_def r3)
  have q2: "task_seq demo_rescheduled = 2" and u2: "loop_running demo_rescheduled"
    by (simp_all add: demo_rescheduled_def schedule_verification_def cancel_verification_def
        demo_state_def Let_def)
  have q3: "task_seq demo_cleaned = 2" and u3: "loop_running demo_cleaned"
    by (simp_all add: demo_cleaned_def run_task_def verify_after_delay_def l2 q2 u2 Let_def)
  have r4: "verification_tasks demo_third = [42 \<mapsto> 2]"
    and l4: "loop_tasks demo_third = [1 \<mapsto> ?t 5 False, 2 \<mapsto> ?t 7 False]"
    by (simp_all add: demo_third_def schedule_verification_def c3 q3 u3 r3 l3 Let_def
        VERIFICATION_DELAY_SECONDS_def)
  have t2: "live_timers demo_rescheduled 42 = {1}"
    by (auto simp add: live_timers_def l2 split: if_splits)
  have t3: "live_timers demo_cleaned 42 = {1}"
    by (auto simp add: live_timers_def l3 split: if_splits)
  have t4: "live_timers demo_third 42 = {1, 2}"
    by (auto simp add: live_timers_def l4 split: if_splits)
  show ?thesis
    by (simp add: r2 l2 r3 c3 r4 t2 t3 t4)
qed



text \<open>
  C7, as the code has it. \<open>merge_note\<close> serialises the set of the parsed tags and the
  new tag as a sorted list without duplicates. Merging \<open>ip_burst\<close> into
  \<open>fresh_account\<close> gives \<open>fresh_account,ip_burst\<close>, and merging it again gives the
  same note. For a well-formed tag \<open>r\<close> the note that \<open>merge_note\<close> returns parses
  back to the merged set, so merging into that note any tag it already holds
  (\<open>r\<close> itself among them) leaves it unchanged. On an arbitrary note, merging a
  tag already present leaves the set of tags unchanged and returns the note in
  sorted form.
\<close>

theorem merge_note_sorted_idempotent:
  assumes "tag_ok r"
  shows "sorted (sorted_list_of_set (insert r (note_reasons existing)))
       \<and> distinct (sorted_list_of_set (insert r (note_reasons existing)))
       \<and> set (sorted_list_of_set (insert r (note_reasons existing))) = insert r (note_reasons existing)
       \<and> merge_note existing r = join (CHR '','') (sorted_list_of_set (insert r (note_reasons existing)))
       \<and> note_reasons (Some (merge_note existing r)) = insert r (note_reasons existing)
       \<and> merge_note (Some (merge_note existing r)) r = merge_note existing r
       \<and> (\<forall>reason \<in> note_reasons (Some (merge_note existing r)).
            merge_note (Some (merge_note existing r)) reason = merge_note existing r)
       \<and> (r \<in> note_reasons existing \<longrightarrow>
            note_reasons (Some (merge_note existing r)) = note_reasons existing
          \<and> merge_note existing r = join (CHR '','') (sorted_list_of_set (note_reasons existing)))
       \<and> merge_note (Some ''fresh_account'') ''ip_burst'' = ''fresh_account,ip_burst''
       \<and> merge_note (Some ''fresh_account,ip_burst'') ''ip_burst'' = ''fresh_account,ip_burst''"
proof -
  let ?S = "insert r (note_reasons existing)"
  have fin: "finite ?S" by (simp add: finite_note_reasons)
  have s1: "sorted (sorted_list_of_set ?S)" by (rule sorted_sorted_list_of_set)
  have s2: "distinct (sorted_list_of_set ?S)" by (rule distinct_sorted_list_of_set)
  have s3: "set (sorted_list_of_set ?S) = ?S" using fin by (rule set_sorted_list_of_set)
  have s4: "merge_note existing r = join (CHR '','') (sorted_list_of_set ?S)"
    by (simp only: merge_note_def)
  have s5: "note_reasons (Some (merge_note existing r)) = ?S"
    using assms by (rule note_reasons_merge_note)
  have s7: "\<forall>reason \<in> note_reasons (Some (merge_note existing r)).
              merge_note (Some (merge_note existing r)) reason = merge_note existing r"
    using assms merge_note_again by blast
  have s6: "merge_note (Some (merge_note existing r)) r = merge_note existing r"
    using s5 s7 by blast
  have s8: "r \<in> note_reasons existing \<longrightarrow>
            note_reasons (Some (merge_note existing r)) = note_reasons existing
          \<and> merge_note existing r = join (CHR '','') (sorted_list_of_set (note_reasons existing))"
    using s5 by (auto simp: merge_note_present)
  have s9: "merge_note (Some ''fresh_account'') ''ip_burst'' = ''fresh_account,ip_burst''"
    by code_simp
  have s10: "merge_note (Some ''fresh_account,ip_burst'') ''ip_burst'' = ''fresh_account,ip_burst''"
    by code_simp
  show ?thesis using s1 s2 s3 s4 s5 s6 s7 s8 s9 s10 by blast
qed

theorem merge_note_sorted_idempotent_witness:
  "tag_ok ''ip_burst''
   \<and> ''fresh_account'' \<in> note_reasons (Some (merge_note (Some ''fresh_account'') ''ip_burst''))
   \<and> merge_note (Some (merge_note (Some ''fresh_account'') ''ip_burst'')) ''fresh_account''
       = merge_note (Some ''fresh_account'') ''ip_burst''
   \<and> ''ip_burst'' \<in> note_reasons (Some ''ip_burst,fresh_account'')
   \<and> note_reasons (Some (merge_note (Some ''ip_burst,fresh_account'') ''ip_burst''))
       = note_reasons (Some ''ip_burst,fresh_account'')"
proof -
  have ok: "tag_ok ''ip_burst''" by code_simp
  have m1: "''fresh_account'' \<in> note_reasons (Some (merge_note (Some ''fresh_account'') ''ip_burst''))"
    by code_simp
  have m2: "''ip_burst'' \<in> note_reasons (Some ''ip_burst,fresh_account'')"
    by code_simp
  show ?thesis
    using ok m1 m2
      merge_note_sorted_idempotent [OF ok, of "Some ''fresh_account''"]
      merge_note_sorted_idempotent [OF ok, of "Some ''ip_burst,fresh_account''"]
    by blast
qed

text \<open>
  C7 as stated fails: the note \<open>ip_burst,fresh_account\<close>, which \<open>_handle_join\<close>
  writes for a join that is both a burst and a fresh account, holds the tag
  \<open>ip_burst\<close>, and merging that tag changes the note.
\<close>

theorem merge_note_present_counterexample:
  "''ip_burst'' \<in> note_reasons (Some ''ip_burst,fresh_account'')
   \<and> merge_note (Some ''ip_burst,fresh_account'') ''ip_burst'' \<noteq> ''ip_burst,fresh_account''"
  by code_simp

text \<open>
  C8. \<open>handle_review_callback\<close> calls \<open>cancel_verification\<close> after it has
  awaited \<open>callback.answer\<close>, outside the session. User 42 has a pending
  attribution 5 and the timer armed at time 0. An administrator revokes the
  attribution at time 100 and the acknowledgement fails at the gateway: the row
  is revoked with the note \<open>manual_revoke\<close>, and the timer of user 42 is still
  registered and live. With the acknowledgement delivered the same press leaves
  the user unregistered and the task cancelled. In both cases the turn of the
  task after the delay leaves the row revoked.
\<close>

theorem review_answer_failure_keeps_timer:
  "map_option status
     (get_attribution
        (store (handle_review_callback demo_int
                  (schedule_verification (demo_state [demo_row 5 42 0 PENDING None None None]) 0 42)
                  (demo_failed_callback ''review:revoke:5'' 100))) 5) = Some REVOKED
   \<and> map_option note_field
     (get_attribution
        (store (handle_review_callback demo_int
                  (schedule_verification (demo_state [demo_row 5 42 0 PENDING None None None]) 0 42)
                  (demo_failed_callback ''review:revoke:5'' 100))) 5) = Some (Some ''manual_revoke'')
   \<and> verification_tasks
       (handle_review_callback demo_int
          (schedule_verification (demo_state [demo_row 5 42 0 PENDING None None None]) 0 42)
          (demo_failed_callback ''review:revoke:5'' 100)) 42 = Some 0
   \<and> map_option task_cancelled
       (loop_tasks
          (handle_review_callback demo_int
             (schedule_verification (demo_state [demo_row 5 42 0 PENDING None None None]) 0 42)
             (demo_failed_callback ''review:revoke:5'' 100)) 0) = Some False
   \<and> live_timers
       (handle_review_callback demo_int
          (schedule_verification (demo_state [demo_row 5 42 0 PENDING None None None]) 0 42)
          (demo_failed_callback ''review:revoke:5'' 100)) 42 = {0}
   \<and> map_option status
       (get_attribution
          (store (run_task
                    (handle_review_callback demo_int
                       (schedule_verification (demo_state [demo_row 5 42 0 PENDING None None None]) 0 42)
                       (demo_failed_callback ''review:revoke:5'' 100))
                    0 600000000 True)) 5) = Some REVOKED
   \<and> verification_tasks
       (handle_review_callback demo_int
          (schedule_verification (demo_state [demo_row 5 42 0 PENDING None None None]) 0 42)
          (demo_callback ''review:revoke:5'' 100)) 42 = None
   \<and> map_option task_cancelled
       (loop_tasks
          (handle_review_callback demo_int
             (schedule_verification (demo_state [demo_row 5 42 0 PENDING None None None]) 0 42)
             (demo_callback ''review:revoke:5'' 100)) 0) = Some True
   \<and> live_timers
       (handle_review_callback demo_int
          (schedule_verification (demo_state [demo_row 5 42 0 PENDING None None None]) 0 42)
          (demo_callback ''review:revoke:5'' 100)) 42 = {}"
proof -
  let ?row = "demo_row 5 42 0 PENDING None None None"
  let ?rev = "?row\<lparr>status := REVOKED, note_field := Some ''manual_revoke''\<rparr>"
  let ?s = "schedule_verification (demo_state [?row]) 0 42"
  let ?f = "demo_failed_callback ''review:revoke:5'' 100"
  let ?c = "demo_callback ''review:revoke:5'' 100"
  let ?t = "\<lambda>c. \<lparr>task_user = 42, task_delay = 600, task_armed_at = 0, task_cancelled = c\<rparr>"
  have m: "merge_note None ''manual_revoke'' = ''manual_revoke''" by code_simp
  have sp: "split (CHR '':'') ''review:revoke:5'' = [''review'', ''revoke'', ''5'']" by simp
  have pi: "demo_int ''5'' = Some 5" by (simp add: demo_int_def)
  have st0: "store (demo_state [?row]) = demo_store [?row]" by (simp add: demo_state_def)
  have ss: "store ?s = demo_store [?row]" by (simp add: st0)
  have g0: "get_attribution (demo_store [?row]) 5 = Some ?row"
    by (simp add: get_attribution_def demo_store_def demo_row_def)
  have g: "get_attribution (store ?s) 5 = Some ?row" unfolding ss by (rule g0)
  have u: "joined_user_id ?row = 42" and n: "note_field ?row = None"
    by (simp_all add: demo_row_def)
  have reg: "verification_tasks ?s = [42 \<mapsto> 0]" and lt: "loop_tasks ?s = [0 \<mapsto> ?t False]"
    by (simp_all add: schedule_verification_def cancel_verification_def demo_state_def
        VERIFICATION_DELAY_SECONDS_def Let_def)
  have f: "handle_review_callback demo_int ?s ?f =
      ?s\<lparr>store := flush_attribution (demo_store [?row]) ?rev\<rparr>"
    using review_revoke [where cb = ?f and d = "''review:revoke:5''" and p = "''review''"
        and idstr = "''5''" and py_int = demo_int and i = 5 and s = ?s and a = ?row, OF _ _ _ sp pi g]
    by (simp add: demo_failed_callback_def demo_callback_def m n ss st0)
  have c: "handle_review_callback demo_int ?s ?c =
      cancel_verification (?s\<lparr>store := flush_attribution (demo_store [?row]) ?rev\<rparr>) 42"
    using review_revoke [where cb = ?c and d = "''review:revoke:5''" and p = "''review''"
        and idstr = "''5''" and py_int = demo_int and i = 5 and s = ?s and a = ?row, OF _ _ _ sp pi g]
    by (simp add: demo_callback_def m n u ss st0)
  have gr: "get_attribution (flush_attribution (demo_store [?row]) ?rev) 5 = Some ?rev"
    using get_attribution_flush [OF g0, of ?rev] by simp
  have gu: "get_attribution_by_user (flush_attribution (demo_store [?row]) ?rev) 42 = Some ?rev"
    by (simp add: get_attribution_by_user_def flush_attribution_def demo_store_def demo_row_def)
  have f1: "map_option status (get_attribution (store (handle_review_callback demo_int ?s ?f)) 5) =
      Some REVOKED"
    unfolding f by (simp add: gr)
  have f2: "map_option note_field (get_attribution (store (handle_review_callback demo_int ?s ?f)) 5) =
      Some (Some ''manual_revoke'')"
    unfolding f by (simp add: gr)
  have f3: "verification_tasks (handle_review_callback demo_int ?s ?f) 42 = Some 0"
    by (simp add: f reg)
  have f4: "map_option task_cancelled (loop_tasks (handle_review_callback demo_int ?s ?f) 0) = Some False"
    by (simp add: f lt)
  have f5: "live_timers (handle_review_callback demo_int ?s ?f) 42 = {0}"
    by (auto simp add: live_timers_def f lt split: if_splits)
  have f6: "map_option status
       (get_attribution (store (run_task (handle_review_callback demo_int ?s ?f) 0 600000000 True)) 5) =
      Some REVOKED"
    by (simp add: f run_task_def lt verify_after_delay_def gu gr seconds_def Let_def)
  have c1: "verification_tasks (handle_review_callback demo_int ?s ?c) 42 = None"
    by (simp add: c cancel_verification_def reg)
  have c2: "map_option task_cancelled (loop_tasks (handle_review_callback demo_int ?s ?c) 0) = Some True"
    by (simp add: c cancel_verification_def reg lt task_cancel_def)
  have c3: "live_timers (handle_review_callback demo_int ?s ?c) 42 = {}"
    by (auto simp add: live_timers_def c cancel_verification_def reg lt task_cancel_def split: if_splits)
  show ?thesis
    by (intro conjI) (fact f1 f2 f3 f4 f5 f6 c1 c2 c3)+
qed

text \<open>
  C9, as the code has it. When the code of the invite link names no affiliate, or
  the affiliate is inactive or owned by the joining user, or the joining user
  already has an attribution, \<open>_handle_join\<close> returns from inside the session:
  the attributions, the events, the affiliates and the sequence are unchanged,
  and no timer is armed or cancelled. The session has upserted the profile row
  of the joining user before the guards, and that write is committed: the
  database after the join is the database before it with this one upsert.
\<close>

theorem rejected_join_keeps_attributions:
  assumes "truthy (upd_invite_link upd)"
    and "get_affiliate_by_code (store s) (extract_link_code urlpath (the (upd_invite_link upd))) = None
         \<or> (\<exists>affiliate. get_affiliate_by_code (store s)
                           (extract_link_code urlpath (the (upd_invite_link upd))) = Some affiliate
               \<and> (\<not> is_active affiliate \<or> owner_user_id affiliate = uid (upd_user upd)))
         \<or> get_attribution_by_user (store s) (uid (upd_user upd)) \<noteq> None"
  shows "attributions (store (handle_join urlpath net24 s upd)) = attributions (store s)
       \<and> events (store (handle_join urlpath net24 s upd)) = events (store s)
       \<and> affiliates (store (handle_join urlpath net24 s upd)) = affiliates (store s)
       \<and> attribution_seq (store (handle_join urlpath net24 s upd)) = attribution_seq (store s)
       \<and> verification_tasks (handle_join urlpath net24 s upd) = verification_tasks s
       \<and> loop_tasks (handle_join urlpath net24 s upd) = loop_tasks s
       \<and> task_seq (handle_join urlpath net24 s upd) = task_seq s
       \<and> store (handle_join urlpath net24 s upd) =
           fst (upsert_user (store s) (uid (upd_user upd)) (username (upd_user upd))
                  (first_name (upd_user upd)) (last_name (upd_user upd)))"
proof -
  have "join_rejected urlpath s upd"
    using assms(2) by (auto simp add: join_rejected_def split: option.splits)
  then have "handle_join urlpath net24 s upd =
           s\<lparr>subnet_events := fst (join_events net24 s upd),
             store := fst (upsert_user (store s) (uid (upd_user upd)) (username (upd_user upd))
                             (first_name (upd_user upd)) (last_name (upd_user upd)))\<rparr>"
    using assms(1) by (intro handle_join_rejected)
  then show ?thesis by simp
qed

theorem rejected_join_keeps_attributions_witness:
  "attributions (store (handle_join demo_urlpath demo_net24
       (demo_state [demo_row 5 42 0 PENDING None None None])
       (demo_join ''https://t.me/+abc'' 42 None 900)))
     = [demo_row 5 42 0 PENDING None None None]
   \<and> events (store (handle_join demo_urlpath demo_net24
       (demo_state [demo_row 5 42 0 PENDING None None None])
       (demo_join ''https://t.me/+abc'' 42 None 900))) = []
   \<and> verification_tasks (handle_join demo_urlpath demo_net24
       (demo_state [demo_row 5 42 0 PENDING None None None])
       (demo_join ''https://t.me/+abc'' 42 None 900)) = Map.empty"
proof -
  have c: "extract_link_code demo_urlpath ''https://t.me/+abc'' = ''+abc''"
    by (simp add: extract_link_code_def demo_urlpath_def strip_char_def)
  have g: "get_attribution_by_user (store (demo_state [demo_row 5 42 0 PENDING None None None])) 42
            = Some (demo_row 5 42 0 PENDING None None None)"
    by (simp add: get_attribution_by_user_def demo_state_def demo_store_def demo_row_def)
  show ?thesis
    using rejected_join_keeps_attributions
      [where upd = "demo_join ''https://t.me/+abc'' 42 None 900"
         and s = "demo_state [demo_row 5 42 0 PENDING None None None]"
         and urlpath = demo_urlpath and ?net24.0 = demo_net24] g
    by (simp add: demo_join_def demo_user_def truthy_def demo_state_def demo_store_def)
qed

text \<open>
  C9 as stated fails: a join through a link that names no affiliate leaves a new
  row in the users table, so the store is not left unchanged.
\<close>

theorem rejected_join_upserts_user_counterexample:
  "get_affiliate_by_code (store (demo_state [])) (extract_link_code demo_urlpath ''https://t.me/+zzz'') = None
   \<and> store (handle_join demo_urlpath demo_net24 (demo_state []) (demo_join ''https://t.me/+zzz'' 42 None 900))
       \<noteq> store (demo_state [])
   \<and> users (store (handle_join demo_urlpath demo_net24 (demo_state [])
                      (demo_join ''https://t.me/+zzz'' 42 None 900)))
       = [\<lparr>user_id = 42, user_username = Some ''alice'', user_first_name = Some ''Alice'',
           user_last_name = None\<rparr>]"
proof -
  have c: "extract_link_code demo_urlpath ''https://t.me/+zzz'' = ''+zzz''"
    by (simp add: extract_link_code_def demo_urlpath_def strip_char_def)
  have n: "get_affiliate_by_code (store (demo_state [])) ''+zzz'' = None"
    by (simp add: get_affiliate_by_code_def demo_state_def demo_store_def demo_affiliate_def)
  have r: "join_rejected demo_urlpath (demo_state []) (demo_join ''https://t.me/+zzz'' 42 None 900)"
    by (simp add: join_rejected_def demo_join_def c n)
  have t: "truthy (upd_invite_link (demo_join ''https://t.me/+zzz'' 42 None 900))"
    by (simp add: demo_join_def truthy_def)
  have u: "users (store (handle_join demo_urlpath demo_net24 (demo_state [])
                      (demo_join ''https://t.me/+zzz'' 42 None 900)))
       = [\<lparr>user_id = 42, user_username = Some ''alice'', user_first_name = Some ''Alice'',
           user_last_name = None\<rparr>]"
    unfolding handle_join_rejected [OF t r]
    by (simp add: demo_join_def demo_user_def upsert_user_def
        get_user_def demo_state_def demo_store_def Let_def)
  have "users (store (demo_state [])) = []" by (simp add: demo_state_def demo_store_def)
  then have "store (handle_join demo_urlpath demo_net24 (demo_state []) (demo_join ''https://t.me/+zzz'' 42 None 900))
       \<noteq> store (demo_state [])"
    using u by auto
  then show ?thesis using c n u by simp
qed

text \<open>
  C10. A membership leave revokes a pending or verified attribution, and a manual
  revoke revokes the attribution it names. In both cases no row is added or
  removed and every other row is unchanged. The revoked row differs from the row
  read only in its status and, for the manual revoke, in its note, which gains
  the tag \<open>manual_revoke\<close>; its verification timestamp is the one it had.
\<close>

theorem revoke_keeps_verified_at:
  "(get_attribution_by_user (store s) (uid tu) = Some a \<and> (status a = PENDING \<or> status a = VERIFIED)
      \<longrightarrow> attributions (store (handle_leave s tu reason now)) =
            map (\<lambda>x. if attr_id x = attr_id a then a\<lparr>status := REVOKED\<rparr> else x)
              (attributions (store s))
        \<and> get_attribution_by_user (store (handle_leave s tu reason now)) (uid tu) =
            Some (a\<lparr>status := REVOKED\<rparr>)
        \<and> map_option verified_at (get_attribution_by_user (store (handle_leave s tu reason now)) (uid tu)) =
            Some (verified_at a))
   \<and> (cb_from_user cb \<noteq> None \<and> cb_is_admin cb \<and> cb_data cb = Some d
       \<and> split (CHR '':'') d = [p, ''revoke'', idstr] \<and> py_int idstr = Some i
       \<and> get_attribution (store s) i = Some b
      \<longrightarrow> attributions (store (handle_review_callback py_int s cb)) =
            map (\<lambda>x. if attr_id x = attr_id b
                      then b\<lparr>status := REVOKED,
                             note_field := Some (merge_note (note_field b) ''manual_revoke'')\<rparr>
                      else x)
              (attributions (store s))
        \<and> get_attribution (store (handle_review_callback py_int s cb)) i =
            Some (b\<lparr>status := REVOKED,
                    note_field := Some (merge_note (note_field b) ''manual_revoke'')\<rparr>)
        \<and> map_option verified_at (get_attribution (store (handle_review_callback py_int s cb)) i) =
            Some (verified_at b))"
proof (intro conjI impI)
  assume h: "get_attribution_by_user (store s) (uid tu) = Some a \<and> (status a = PENDING \<or> status a = VERIFIED)"
  then have g: "get_attribution_by_user (store s) (uid tu) = Some a"
    and st: "status a = PENDING \<or> status a = VERIFIED" by simp_all
  show "attributions (store (handle_leave s tu reason now)) =
          map (\<lambda>x. if attr_id x = attr_id a then a\<lparr>status := REVOKED\<rparr> else x) (attributions (store s))"
    using g st by (rule handle_leave_revokes(1))
  show r: "get_attribution_by_user (store (handle_leave s tu reason now)) (uid tu) = Some (a\<lparr>status := REVOKED\<rparr>)"
    using g st by (rule handle_leave_revokes(2))
  show "map_option verified_at (get_attribution_by_user (store (handle_leave s tu reason now)) (uid tu)) =
          Some (verified_at a)"
    by (simp add: r)
next
  let ?b = "b\<lparr>status := REVOKED, note_field := Some (merge_note (note_field b) ''manual_revoke'')\<rparr>"
  assume h: "cb_from_user cb \<noteq> None \<and> cb_is_admin cb \<and> cb_data cb = Some d
       \<and> split (CHR '':'') d = [p, ''revoke'', idstr] \<and> py_int idstr = Some i
       \<and> get_attribution (store s) i = Some b"
  then have eq: "store (handle_review_callback py_int s cb) = flush_attribution (store s) ?b"
    using store_review_revoke [where cb = cb and d = d and p = p and idstr = idstr
        and py_int = py_int and i = i and s = s and a = b]
    by blast
  have g: "get_attribution (store s) i = Some b" using h by simp
  show "attributions (store (handle_review_callback py_int s cb)) =
          map (\<lambda>x. if attr_id x = attr_id b then ?b else x) (attributions (store s))"
    by (simp add: eq flush_attribution_def)
  show r: "get_attribution (store (handle_review_callback py_int s cb)) i = Some ?b"
    using get_attribution_flush [OF g, of ?b] by (simp add: eq)
  show "map_option verified_at (get_attribution (store (handle_review_callback py_int s cb)) i) =
          Some (verified_at b)"
    by (simp add: r)
qed

theorem revoke_keeps_verified_at_witness:
  "map_option verified_at
     (get_attribution_by_user
        (store (handle_leave (demo_state [demo_row 5 42 0 VERIFIED (Some 100) None None])
                  (demo_user 42) ''left'' 900)) 42) = Some (Some 100)
   \<and> map_option status
     (get_attribution_by_user
        (store (handle_leave (demo_state [demo_row 5 42 0 VERIFIED (Some 100) None None])
                  (demo_user 42) ''left'' 900)) 42) = Some REVOKED
   \<and> map_option verified_at
     (get_attribution
        (store (handle_review_callback demo_int
                  (demo_state [demo_row 5 42 0 VERIFIED (Some 100) None None])
                  (demo_callback ''review:revoke:5'' 900))) 5) = Some (Some 100)
   \<and> map_option note_field
     (get_attribution
        (store (handle_review_callback demo_int
                  (demo_state [demo_row 5 42 0 VERIFIED (Some 100) None None])
                  (demo_callback ''review:revoke:5'' 900))) 5) = Some (Some ''manual_revoke'')"
proof -
  have m: "merge_note None ''manual_revoke'' = ''manual_revoke''" by code_simp
  show ?thesis
    using revoke_keeps_verified_at
      [of "demo_state [demo_row 5 42 0 VERIFIED (Some 100) None None]" "demo_user 42"
          "demo_row 5 42 0 VERIFIED (Some 100) None None" "''left''" 900
          "demo_callback ''review:revoke:5'' 900" "''review:revoke:5''" "''review''" "''5''"
          demo_int 5 "demo_row 5 42 0 VERIFIED (Some 100) None None"]
    by (simp add: demo_state_def demo_store_def demo_row_def demo_user_def demo_callback_def
        demo_int_def get_attribution_by_user_def get_attribution_def m)
qed

end
